theory Spec2Isabelle
  imports Main "HOL-Library.Word"
begin

section \<open>The upload bot: data model\<close>

text \<open>
  The repository holds two variants of one Telegram bot. \<^verbatim>\<open>src/main.go\<close> keeps one
  process-wide flag \<^verbatim>\<open>isFirstTimeSetup\<close> that is cleared by the first correct password
  (suffix \<open>_pw\<close> below); \<^verbatim>\<open>src/unnamed/part_000\<close> keeps a field \<^verbatim>\<open>authenticated\<close> in
  every session (suffix \<open>_pc\<close>, per conversation). Everything else of the session logic
  is the same text in both files.

  Go's \<^verbatim>\<open>int64\<close> is a 64-bit word. Go's \<^verbatim>\<open>int\<close> is taken at its width on the 64-bit
  targets: a 64-bit word read in two's complement (\<open>sint\<close>), so that \<^verbatim>\<open>uploadCount++\<close>
  wraps as the machine does. A \<^verbatim>\<open>time.Time\<close> is a clock reading in nanoseconds.
\<close>

type_synonym int64 = "64 word"
type_synonym go_int = "64 word"
type_synonym time = int
type_synonym addr = nat

text \<open>\<^verbatim>\<open>type UploadSession struct\<close> of main.go (lines 28-33).\<close>

record UploadSession =
  chatID :: int64
  isActive :: bool
  uploadCount :: go_int
  startTime :: time

text \<open>
  \<^verbatim>\<open>type UploadSession struct\<close> of part_000 (lines 27-33): the same four fields, then
  \<^verbatim>\<open>authenticated bool\<close>.
\<close>

record UploadSessionA = UploadSession +
  authenticated :: bool

text \<open>
  \<^verbatim>\<open>var uploadSessions = make(map[int64]*UploadSession)\<close>: the map holds pointers. The
  objects live in a heap, a total function from addresses to session objects; \<open>next_addr\<close>
  is the first address never handed out, so \<^verbatim>\<open>&UploadSession{...}\<close> takes \<open>next_addr\<close> and
  moves it on. An object that no pointer reaches any more stays in the heap unchanged
  (the garbage collector is not modelled).
\<close>

record 's bot =
  heap :: "addr \<Rightarrow> 's"
  next_addr :: addr
  uploadSessions :: "int64 \<rightharpoonup> addr"

text \<open>main.go adds \<^verbatim>\<open>var isFirstTimeSetup = true\<close> (line 36).\<close>

record 's bot_flag = "'s bot" +
  isFirstTimeSetup :: bool

type_synonym bot_pc = "UploadSessionA bot"
type_synonym bot_pw = "UploadSession bot_flag"

subsection \<open>Events and effects\<close>

text \<open>
  What the messaging library hands to the handlers registered with \<^verbatim>\<open>b.Handle\<close>, each
  event with the chat it comes from (\<^verbatim>\<open>c.Chat().ID\<close>). The answers of the outside world
  that a handler consumes travel with the event: the clock reading for \<^verbatim>\<open>time.Now()\<close> and
  \<^verbatim>\<open>time.Since\<close>, the result of \<^verbatim>\<open>driveManager.listFiles()\<close> (an error text or the files'
  names), and for a document its file name, the error of \<^verbatim>\<open>b.File(&doc.File)\<close> and the
  error of \<^verbatim>\<open>driveManager.uploadFile\<close> (\<open>None\<close> is Go's \<^verbatim>\<open>nil\<close>; each is read only if the
  handler reaches the call).

  The library starts every handler in a goroutine of its own (\<^verbatim>\<open>tele.Settings\<close> leaves
  \<^verbatim>\<open>Synchronous\<close> unset), so handlers may overlap in time. The handlers below are each one
  step from the state the handler finds to the state it leaves, and \<open>run_pc\<close>, \<open>run_pw\<close>
  compose them one after the other: that is the program when no handler is overtaken by
  another between its reads and its writes. All handlers but one read and write the map and
  the sessions with no blocking call in between. The document handler is the exception: it
  blocks on \<^verbatim>\<open>c.Send\<close>, \<^verbatim>\<open>b.File\<close> and \<^verbatim>\<open>uploadFile\<close> between its checks and
  \<^verbatim>\<open>session.uploadCount++\<close>. The section on overlapping handlers splits it at that point and
  lets other handlers run in between.
\<close>

datatype update =
    CmdStart
  | CmdUpload time
  | CmdDone time
  | CmdCancel
  | CmdList "string + string list"
  | CmdQuantity "string + string list"
  | OnDocument string "string option" "string option"
  | OnText string

type_synonym event = "int64 \<times> update"

text \<open>
  The texts passed to \<^verbatim>\<open>c.Send\<close>, one constructor per string literal or format of the
  source, with the values that the format is given: file names, counts, error texts; for
  the completed session the duration \<^verbatim>\<open>time.Since(session.startTime)\<close>, which the format
  prints rounded to the second.
\<close>

datatype reply =
    Welcome
  | PromptPassword
  | SessionStarted
  | NoActiveSessionUseUpload
  | NoActiveSession
  | SessionCompleted go_int time
  | SessionCancelled go_int
  | AuthenticateFirst
  | OnlyJarFiles
  | UploadingFile string go_int
  | FileReaderFailed string
  | DriveUploadFailed string
  | UploadedFile string go_int
  | PasswordAccepted
  | PasswordIncorrect
  | FileListFailed string
  | NoModsYet
  | FileList "string list"
  | FileCountFailed string
  | FileCount nat

text \<open>
  The calls a handler makes on the outside world, in the order it makes them. An error that
  \<^verbatim>\<open>c.Send\<close> returns goes back to the library and changes nothing in the program's state.
\<close>

datatype action =
    Send int64 reply
  | Download
  | DriveUpload string
  | DriveList
  | CreateFlagFile

subsection \<open>Library functions\<close>

text \<open>
  Go's \<^verbatim>\<open>strings.HasSuffix\<close>:
  \<^verbatim>\<open>len(s) >= len(suffix) && s[len(s)-len(suffix):] == suffix\<close>.
\<close>

definition HasSuffix :: "string \<Rightarrow> string \<Rightarrow> bool" where
  "HasSuffix s suffix \<longleftrightarrow>
     length suffix \<le> length s \<and> drop (length s - length suffix) s = suffix"

text \<open>
  \<^verbatim>\<open>uploadPassword := os.Getenv("upload_password"); if uploadPassword == "" {
  uploadPassword = "password" }\<close>; \<open>env\<close> is the value of the environment variable.
\<close>

definition uploadPassword :: "string \<Rightarrow> string" where
  "uploadPassword env = (if env = [] then ''password'' else env)"

section \<open>Handlers shared by both files\<close>

text \<open>\<^verbatim>\<open>/start\<close> (main.go 83-85, part_000 75-77).\<close>

definition handle_start :: "int64 \<Rightarrow> ('s, 'b) bot_scheme \<Rightarrow> ('s, 'b) bot_scheme \<times> action list" where
  "handle_start c st = (st, [Send c Welcome])"

text \<open>
  \<^verbatim>\<open>/done\<close> (main.go 107-121, part_000 96-110). The reply reads \<^verbatim>\<open>session.uploadCount\<close>
  and \<^verbatim>\<open>session.startTime\<close> through the pointer after the map entry is deleted.
\<close>

definition handle_done ::
  "int64 \<Rightarrow> time \<Rightarrow> ('a UploadSession_scheme, 'b) bot_scheme
     \<Rightarrow> ('a UploadSession_scheme, 'b) bot_scheme \<times> action list" where
  "handle_done c now st =
     (case uploadSessions st c of
        None \<Rightarrow> (st, [Send c NoActiveSessionUseUpload])
      | Some p \<Rightarrow>
          if \<not> isActive (heap st p) then (st, [Send c NoActiveSessionUseUpload])
          else
            let session = (heap st p)\<lparr>isActive := False\<rparr>;
                st1 = st\<lparr>heap := (heap st)(p := session)\<rparr>;
                st2 = st1\<lparr>uploadSessions := (uploadSessions st1)(c := None)\<rparr>;
                duration = now - startTime (heap st2 p)
            in (st2, [Send c (SessionCompleted (uploadCount (heap st2 p)) duration)]))"

text \<open>\<^verbatim>\<open>/cancel\<close> (main.go 124-137, part_000 113-126).\<close>

definition handle_cancel ::
  "int64 \<Rightarrow> ('a UploadSession_scheme, 'b) bot_scheme
     \<Rightarrow> ('a UploadSession_scheme, 'b) bot_scheme \<times> action list" where
  "handle_cancel c st =
     (case uploadSessions st c of
        None \<Rightarrow> (st, [Send c NoActiveSession])
      | Some p \<Rightarrow>
          if \<not> isActive (heap st p) then (st, [Send c NoActiveSession])
          else
            let session = (heap st p)\<lparr>isActive := False\<rparr>;
                st1 = st\<lparr>heap := (heap st)(p := session)\<rparr>;
                st2 = st1\<lparr>uploadSessions := (uploadSessions st1)(c := None)\<rparr>
            in (st2, [Send c (SessionCancelled (uploadCount (heap st2 p)))]))"

text \<open>\<^verbatim>\<open>/list\<close> (main.go 217-234, part_000 200-217).\<close>

definition handle_list ::
  "int64 \<Rightarrow> string + string list \<Rightarrow> ('s, 'b) bot_scheme \<Rightarrow> ('s, 'b) bot_scheme \<times> action list" where
  "handle_list c res st =
     (case res of
        Inl err \<Rightarrow> (st, [DriveList, Send c (FileListFailed err)])
      | Inr files \<Rightarrow>
          if length files = 0 then (st, [DriveList, Send c NoModsYet])
          else (st, [DriveList, Send c (FileList files)]))"

text \<open>\<^verbatim>\<open>/quantity\<close> (main.go 237-244, part_000 220-227).\<close>

definition handle_quantity ::
  "int64 \<Rightarrow> string + string list \<Rightarrow> ('s, 'b) bot_scheme \<Rightarrow> ('s, 'b) bot_scheme \<times> action list" where
  "handle_quantity c res st =
     (case res of
        Inl err \<Rightarrow> (st, [DriveList, Send c (FileCountFailed err)])
      | Inr files \<Rightarrow> (st, [DriveList, Send c (FileCount (length files))]))"

section \<open>part\_000: authentication per conversation\<close>

text \<open>\<^verbatim>\<open>/upload\<close> (part_000 80-93).\<close>

definition handle_upload_pc :: "int64 \<Rightarrow> time \<Rightarrow> bot_pc \<Rightarrow> bot_pc \<times> action list" where
  "handle_upload_pc c now st =
     (let p = next_addr st;
          session = \<lparr>chatID = c, isActive = True, uploadCount = 0, startTime = now,
                     authenticated = False\<rparr>;
          st1 = st\<lparr>heap := (heap st)(p := session), next_addr := Suc p\<rparr>;
          st2 = st1\<lparr>uploadSessions := (uploadSessions st1)(c \<mapsto> p)\<rparr>
      in (st2, [Send c PromptPassword]))"

text \<open>\<^verbatim>\<open>tele.OnDocument\<close> (part_000 129-170).\<close>

definition handle_document_pc ::
  "int64 \<Rightarrow> string \<Rightarrow> string option \<Rightarrow> string option \<Rightarrow> bot_pc \<Rightarrow> bot_pc \<times> action list" where
  "handle_document_pc c fileName fileErr uploadErr st =
     (case uploadSessions st c of
        None \<Rightarrow> (st, [Send c NoActiveSessionUseUpload])
      | Some p \<Rightarrow>
          if \<not> isActive (heap st p) then (st, [Send c NoActiveSessionUseUpload])
          else if \<not> authenticated (heap st p) then (st, [Send c AuthenticateFirst])
          else if \<not> HasSuffix fileName ''.jar'' then (st, [Send c OnlyJarFiles])
          else
            let progress = Send c (UploadingFile fileName (uploadCount (heap st p))) in
            (case fileErr of
               Some err \<Rightarrow> (st, [progress, Download, Send c (FileReaderFailed err)])
             | None \<Rightarrow>
                (case uploadErr of
                   Some err \<Rightarrow>
                     (st, [progress, Download, DriveUpload fileName,
                           Send c (DriveUploadFailed err)])
                 | None \<Rightarrow>
                     let session = (heap st p)\<lparr>uploadCount := uploadCount (heap st p) + 1\<rparr>;
                         st1 = st\<lparr>heap := (heap st)(p := session)\<rparr>
                     in (st1, [progress, Download, DriveUpload fileName,
                               Send c (UploadedFile fileName (uploadCount (heap st1 p)))]))))"

text \<open>\<^verbatim>\<open>tele.OnText\<close> (part_000 173-197).\<close>

definition handle_text_pc :: "string \<Rightarrow> int64 \<Rightarrow> string \<Rightarrow> bot_pc \<Rightarrow> bot_pc \<times> action list" where
  "handle_text_pc env c txt st =
     (case uploadSessions st c of
        None \<Rightarrow> (st, [])
      | Some p \<Rightarrow>
          if \<not> isActive (heap st p) \<or> authenticated (heap st p) then (st, [])
          else if txt = uploadPassword env then
            (st\<lparr>heap := (heap st)(p := (heap st p)\<lparr>authenticated := True\<rparr>)\<rparr>,
             [Send c PasswordAccepted])
          else
            let session = (heap st p)\<lparr>isActive := False\<rparr>;
                st1 = st\<lparr>heap := (heap st)(p := session)\<rparr>;
                st2 = st1\<lparr>uploadSessions := (uploadSessions st1)(c := None)\<rparr>
            in (st2, [Send c PasswordIncorrect]))"

text \<open>The dispatch of \<^verbatim>\<open>b.Handle\<close>: one event, one handler.\<close>

fun step_pc :: "string \<Rightarrow> event \<Rightarrow> bot_pc \<Rightarrow> bot_pc \<times> action list" where
  "step_pc env (c, CmdStart) st = handle_start c st"
| "step_pc env (c, CmdUpload now) st = handle_upload_pc c now st"
| "step_pc env (c, CmdDone now) st = handle_done c now st"
| "step_pc env (c, CmdCancel) st = handle_cancel c st"
| "step_pc env (c, CmdList res) st = handle_list c res st"
| "step_pc env (c, CmdQuantity res) st = handle_quantity c res st"
| "step_pc env (c, OnDocument fileName fileErr uploadErr) st =
     handle_document_pc c fileName fileErr uploadErr st"
| "step_pc env (c, OnText txt) st = handle_text_pc env c txt st"

text \<open>A run: the events one after the other, the effects in order.\<close>

fun run_pc :: "string \<Rightarrow> event list \<Rightarrow> bot_pc \<Rightarrow> bot_pc \<times> action list" where
  "run_pc env [] st = (st, [])"
| "run_pc env (ev # evs) st =
     (case step_pc env ev st of (st1, out1) \<Rightarrow>
        (case run_pc env evs st1 of (st2, out2) \<Rightarrow> (st2, out1 @ out2)))"

text \<open>The program's start: an empty map, no object allocated, zeroed memory.\<close>

definition init_pc :: bot_pc where
  "init_pc = \<lparr>heap = (\<lambda>_. \<lparr>chatID = 0, isActive = False, uploadCount = 0, startTime = 0,
                              authenticated = False\<rparr>),
             next_addr = 0, uploadSessions = Map.empty\<rparr>"

section \<open>main.go: authentication for the whole process\<close>

text \<open>\<^verbatim>\<open>/upload\<close> (main.go 88-104).\<close>

definition handle_upload_pw :: "int64 \<Rightarrow> time \<Rightarrow> bot_pw \<Rightarrow> bot_pw \<times> action list" where
  "handle_upload_pw c now st =
     (let p = next_addr st;
          session = \<lparr>chatID = c, isActive = True, uploadCount = 0, startTime = now\<rparr>;
          st1 = st\<lparr>heap := (heap st)(p := session), next_addr := Suc p\<rparr>;
          st2 = st1\<lparr>uploadSessions := (uploadSessions st1)(c \<mapsto> p)\<rparr>
      in if isFirstTimeSetup st2 then (st2, [Send c PromptPassword])
         else (st2, [Send c SessionStarted]))"

text \<open>\<^verbatim>\<open>tele.OnDocument\<close> (main.go 140-181).\<close>

definition handle_document_pw ::
  "int64 \<Rightarrow> string \<Rightarrow> string option \<Rightarrow> string option \<Rightarrow> bot_pw \<Rightarrow> bot_pw \<times> action list" where
  "handle_document_pw c fileName fileErr uploadErr st =
     (case uploadSessions st c of
        None \<Rightarrow> (st, [Send c NoActiveSessionUseUpload])
      | Some p \<Rightarrow>
          if \<not> isActive (heap st p) then (st, [Send c NoActiveSessionUseUpload])
          else if isFirstTimeSetup st then (st, [Send c AuthenticateFirst])
          else if \<not> HasSuffix fileName ''.jar'' then (st, [Send c OnlyJarFiles])
          else
            let progress = Send c (UploadingFile fileName (uploadCount (heap st p))) in
            (case fileErr of
               Some err \<Rightarrow> (st, [progress, Download, Send c (FileReaderFailed err)])
             | None \<Rightarrow>
                (case uploadErr of
                   Some err \<Rightarrow>
                     (st, [progress, Download, DriveUpload fileName,
                           Send c (DriveUploadFailed err)])
                 | None \<Rightarrow>
                     let session = (heap st p)\<lparr>uploadCount := uploadCount (heap st p) + 1\<rparr>;
                         st1 = st\<lparr>heap := (heap st)(p := session)\<rparr>
                     in (st1, [progress, Download, DriveUpload fileName,
                               Send c (UploadedFile fileName (uploadCount (heap st1 p)))]))))"

text \<open>
  \<^verbatim>\<open>tele.OnText\<close> (main.go 184-214). \<^verbatim>\<open>os.Create("password_entered.flag")\<close> is an effect
  whose error the handler drops.
\<close>

definition handle_text_pw :: "string \<Rightarrow> int64 \<Rightarrow> string \<Rightarrow> bot_pw \<Rightarrow> bot_pw \<times> action list" where
  "handle_text_pw env c txt st =
     (case uploadSessions st c of
        None \<Rightarrow> (st, [])
      | Some p \<Rightarrow>
          if \<not> isActive (heap st p) \<or> \<not> isFirstTimeSetup st then (st, [])
          else if txt = uploadPassword env then
            (st\<lparr>isFirstTimeSetup := False\<rparr>, [CreateFlagFile, Send c PasswordAccepted])
          else
            let session = (heap st p)\<lparr>isActive := False\<rparr>;
                st1 = st\<lparr>heap := (heap st)(p := session)\<rparr>;
                st2 = st1\<lparr>uploadSessions := (uploadSessions st1)(c := None)\<rparr>
            in (st2, [Send c PasswordIncorrect]))"

fun step_pw :: "string \<Rightarrow> event \<Rightarrow> bot_pw \<Rightarrow> bot_pw \<times> action list" where
  "step_pw env (c, CmdStart) st = handle_start c st"
| "step_pw env (c, CmdUpload now) st = handle_upload_pw c now st"
| "step_pw env (c, CmdDone now) st = handle_done c now st"
| "step_pw env (c, CmdCancel) st = handle_cancel c st"
| "step_pw env (c, CmdList res) st = handle_list c res st"
| "step_pw env (c, CmdQuantity res) st = handle_quantity c res st"
| "step_pw env (c, OnDocument fileName fileErr uploadErr) st =
     handle_document_pw c fileName fileErr uploadErr st"
| "step_pw env (c, OnText txt) st = handle_text_pw env c txt st"

fun run_pw :: "string \<Rightarrow> event list \<Rightarrow> bot_pw \<Rightarrow> bot_pw \<times> action list" where
  "run_pw env [] st = (st, [])"
| "run_pw env (ev # evs) st =
     (case step_pw env ev st of (st1, out1) \<Rightarrow>
        (case run_pw env evs st1 of (st2, out2) \<Rightarrow> (st2, out1 @ out2)))"

text \<open>
  \<^verbatim>\<open>func init()\<close> (main.go 38-43): the flag starts true and is cleared when
  \<^verbatim>\<open>os.Stat("password_entered.flag")\<close> finds the file; \<open>flagFile\<close> says whether it does.
\<close>

definition init_pw :: "bool \<Rightarrow> bot_pw" where
  "init_pw flagFile =
     \<lparr>heap = (\<lambda>_. \<lparr>chatID = 0, isActive = False, uploadCount = 0, startTime = 0\<rparr>),
      next_addr = 0, uploadSessions = Map.empty,
      isFirstTimeSetup = (if flagFile then False else True)\<rparr>"

section \<open>Overlapping handlers\<close>

text \<open>
  The document handler in two phases (main.go 140-181, part_000 129-170). The first runs
  from the lookup to the progress message: it reads the pointer \<^verbatim>\<open>session\<close> out of the map,
  makes the three checks and, when they pass, keeps the pointer, the chat and the file name;
  \<open>Pending c p fileName\<close> is a handler stopped there. The second is the rest, resumed with
  the results of \<^verbatim>\<open>b.File\<close> and \<^verbatim>\<open>uploadFile\<close>: it looks at neither the map nor \<^verbatim>\<open>isActive\<close>
  nor the authentication again, and increments through the pointer it kept. The second
  phase is the same text in both files.
\<close>

datatype pending = Pending int64 addr string

definition document_check_pc :: "int64 \<Rightarrow> string \<Rightarrow> bot_pc \<Rightarrow> pending option \<times> action list" where
  "document_check_pc c fileName st =
     (case uploadSessions st c of
        None \<Rightarrow> (None, [Send c NoActiveSessionUseUpload])
      | Some p \<Rightarrow>
          if \<not> isActive (heap st p) then (None, [Send c NoActiveSessionUseUpload])
          else if \<not> authenticated (heap st p) then (None, [Send c AuthenticateFirst])
          else if \<not> HasSuffix fileName ''.jar'' then (None, [Send c OnlyJarFiles])
          else (Some (Pending c p fileName),
                [Send c (UploadingFile fileName (uploadCount (heap st p)))]))"

definition document_check_pw :: "int64 \<Rightarrow> string \<Rightarrow> bot_pw \<Rightarrow> pending option \<times> action list" where
  "document_check_pw c fileName st =
     (case uploadSessions st c of
        None \<Rightarrow> (None, [Send c NoActiveSessionUseUpload])
      | Some p \<Rightarrow>
          if \<not> isActive (heap st p) then (None, [Send c NoActiveSessionUseUpload])
          else if isFirstTimeSetup st then (None, [Send c AuthenticateFirst])
          else if \<not> HasSuffix fileName ''.jar'' then (None, [Send c OnlyJarFiles])
          else (Some (Pending c p fileName),
                [Send c (UploadingFile fileName (uploadCount (heap st p)))]))"

fun document_complete ::
  "pending \<Rightarrow> string option \<Rightarrow> string option \<Rightarrow> ('a UploadSession_scheme, 'b) bot_scheme
     \<Rightarrow> ('a UploadSession_scheme, 'b) bot_scheme \<times> action list" where
  "document_complete (Pending c p fileName) fileErr uploadErr st =
     (case fileErr of
        Some err \<Rightarrow> (st, [Download, Send c (FileReaderFailed err)])
      | None \<Rightarrow>
         (case uploadErr of
            Some err \<Rightarrow> (st, [Download, DriveUpload fileName, Send c (DriveUploadFailed err)])
          | None \<Rightarrow>
              let session = (heap st p)\<lparr>uploadCount := uploadCount (heap st p) + 1\<rparr>;
                  st1 = st\<lparr>heap := (heap st)(p := session)\<rparr>
              in (st1, [Download, DriveUpload fileName,
                        Send c (UploadedFile fileName (uploadCount (heap st1 p)))])))"

text \<open>
  A schedule says in which order the pieces run: a handler taken whole (\<open>Whole\<close>), the first
  phase of a document handler (\<open>DocBegin\<close>), and the second phase of the \<open>k\<close>-th document
  handler that is stopped between its phases (\<open>DocEnd\<close>, with the results of its two calls).
  A configuration is the program's state with the list of the stopped handlers.
\<close>

datatype sched =
    Whole event
  | DocBegin int64 string
  | DocEnd nat "string option" "string option"

fun sched_step_pc ::
  "string \<Rightarrow> sched \<Rightarrow> bot_pc \<times> pending list \<Rightarrow> (bot_pc \<times> pending list) \<times> action list" where
  "sched_step_pc env (Whole ev) (st, ps) =
     (case step_pc env ev st of (st1, out) \<Rightarrow> ((st1, ps), out))"
| "sched_step_pc env (DocBegin c fileName) (st, ps) =
     (case document_check_pc c fileName st of
        (None, out) \<Rightarrow> ((st, ps), out)
      | (Some pd, out) \<Rightarrow> ((st, ps @ [pd]), out))"
| "sched_step_pc env (DocEnd k fileErr uploadErr) (st, ps) =
     (if k < length ps then
        (case document_complete (ps ! k) fileErr uploadErr st of
           (st1, out) \<Rightarrow> ((st1, take k ps @ drop (Suc k) ps), out))
      else ((st, ps), []))"

fun sched_step_pw ::
  "string \<Rightarrow> sched \<Rightarrow> bot_pw \<times> pending list \<Rightarrow> (bot_pw \<times> pending list) \<times> action list" where
  "sched_step_pw env (Whole ev) (st, ps) =
     (case step_pw env ev st of (st1, out) \<Rightarrow> ((st1, ps), out))"
| "sched_step_pw env (DocBegin c fileName) (st, ps) =
     (case document_check_pw c fileName st of
        (None, out) \<Rightarrow> ((st, ps), out)
      | (Some pd, out) \<Rightarrow> ((st, ps @ [pd]), out))"
| "sched_step_pw env (DocEnd k fileErr uploadErr) (st, ps) =
     (if k < length ps then
        (case document_complete (ps ! k) fileErr uploadErr st of
           (st1, out) \<Rightarrow> ((st1, take k ps @ drop (Suc k) ps), out))
      else ((st, ps), []))"

fun sched_run_pc ::
  "string \<Rightarrow> sched list \<Rightarrow> bot_pc \<times> pending list \<Rightarrow> (bot_pc \<times> pending list) \<times> action list" where
  "sched_run_pc env [] cf = (cf, [])"
| "sched_run_pc env (s # ss) cf =
     (case sched_step_pc env s cf of (cf1, out1) \<Rightarrow>
        (case sched_run_pc env ss cf1 of (cf2, out2) \<Rightarrow> (cf2, out1 @ out2)))"

fun sched_run_pw ::
  "string \<Rightarrow> sched list \<Rightarrow> bot_pw \<times> pending list \<Rightarrow> (bot_pw \<times> pending list) \<times> action list" where
  "sched_run_pw env [] cf = (cf, [])"
| "sched_run_pw env (s # ss) cf =
     (case sched_step_pw env s cf of (cf1, out1) \<Rightarrow>
        (case sched_run_pw env ss cf1 of (cf2, out2) \<Rightarrow> (cf2, out1 @ out2)))"

text \<open>
  Conversation 7 sends a document and then \<^verbatim>\<open>/done\<close>; the \<^verbatim>\<open>/done\<close> handler runs while the
  document handler waits for its upload.
\<close>

definition race_done :: "sched list" where
  "race_done = [DocBegin 7 ''mod1.jar'', Whole (7, CmdDone 900)]"

section \<open>Vocabulary of the specification\<close>

text \<open>
  The states of the session state machine, read off a state of the program for a
  conversation \<open>c\<close> whose map entry points at the session object \<open>p\<close>. The
  authentication condition is the session's field in part\_000 and the cleared
  process-wide flag in main.go.
\<close>

definition uploading_pc :: "bot_pc \<Rightarrow> int64 \<Rightarrow> addr \<Rightarrow> bool" where
  "uploading_pc st c p \<longleftrightarrow>
     uploadSessions st c = Some p \<and> isActive (heap st p) \<and> authenticated (heap st p)"

definition awaiting_pc :: "bot_pc \<Rightarrow> int64 \<Rightarrow> addr \<Rightarrow> bool" where
  "awaiting_pc st c p \<longleftrightarrow>
     uploadSessions st c = Some p \<and> isActive (heap st p) \<and> \<not> authenticated (heap st p)"

definition uploading_pw :: "bot_pw \<Rightarrow> int64 \<Rightarrow> addr \<Rightarrow> bool" where
  "uploading_pw st c p \<longleftrightarrow>
     uploadSessions st c = Some p \<and> isActive (heap st p) \<and> \<not> isFirstTimeSetup st"

definition awaiting_pw :: "bot_pw \<Rightarrow> int64 \<Rightarrow> addr \<Rightarrow> bool" where
  "awaiting_pw st c p \<longleftrightarrow>
     uploadSessions st c = Some p \<and> isActive (heap st p) \<and> isFirstTimeSetup st"

text \<open>
  The pointers of the map are sound: each points at an object that was allocated, that
  carries the key as its \<^verbatim>\<open>chatID\<close> (hence no object is shared by two keys) and that is
  active.
\<close>

definition store_inv :: "('a UploadSession_scheme, 'b) bot_scheme \<Rightarrow> bool" where
  "store_inv st \<longleftrightarrow>
     (\<forall>c p. uploadSessions st c = Some p \<longrightarrow>
        p < next_addr st \<and> chatID (heap st p) = c \<and> isActive (heap st p))"

text \<open>The commands that end a conversation's session or put a new one in its place.\<close>

fun ends_or_restarts :: "update \<Rightarrow> bool" where
  "ends_or_restarts (CmdUpload now) = True"
| "ends_or_restarts (CmdDone now) = True"
| "ends_or_restarts CmdCancel = True"
| "ends_or_restarts u = False"

definition keeps_session :: "int64 \<Rightarrow> event \<Rightarrow> bool" where
  "keeps_session c ev \<longleftrightarrow> fst ev \<noteq> c \<or> \<not> ends_or_restarts (snd ev)"

text \<open>
  A document whose name ends in \<^verbatim>\<open>.jar\<close> and for which both the download and the storage
  call return no error.
\<close>

fun stored_jar :: "update \<Rightarrow> bool" where
  "stored_jar (OnDocument fileName fileErr uploadErr) =
     (HasSuffix fileName ''.jar'' \<and> fileErr = None \<and> uploadErr = None)"
| "stored_jar u = False"

definition stored :: "int64 \<Rightarrow> event \<Rightarrow> bool" where
  "stored c ev \<longleftrightarrow> fst ev = c \<and> stored_jar (snd ev)"

fun is_document :: "update \<Rightarrow> bool" where
  "is_document (OnDocument fileName fileErr uploadErr) = True"
| "is_document u = False"

text \<open>
  A session object is in the store when some key of the map points at it. It leaves the
  store over a step when it was in the store before and is not after; it goes inactive
  over a step when \<open>isActive\<close> was true before and is false after.
\<close>

definition in_store :: "('s, 'b) bot_scheme \<Rightarrow> addr \<Rightarrow> bool" where
  "in_store st p \<longleftrightarrow> (\<exists>c. uploadSessions st c = Some p)"

definition leaves_store :: "('s, 'b) bot_scheme \<Rightarrow> ('s, 'b) bot_scheme \<Rightarrow> addr \<Rightarrow> bool" where
  "leaves_store st st' p \<longleftrightarrow> in_store st p \<and> \<not> in_store st' p"

definition goes_inactive ::
  "('a UploadSession_scheme, 'b) bot_scheme \<Rightarrow> ('a UploadSession_scheme, 'b) bot_scheme
     \<Rightarrow> addr \<Rightarrow> bool" where
  "goes_inactive st st' p \<longleftrightarrow> isActive (heap st p) \<and> \<not> isActive (heap st' p)"

text \<open>
  The events that end a session: \<^verbatim>\<open>/done\<close>, \<^verbatim>\<open>/cancel\<close>, and a text that is not the
  password while the password is awaited (\<open>awaiting\<close>).
\<close>

fun ends_session :: "string \<Rightarrow> bool \<Rightarrow> update \<Rightarrow> bool" where
  "ends_session env awaiting (CmdDone now) = True"
| "ends_session env awaiting CmdCancel = True"
| "ends_session env awaiting (OnText txt) = (awaiting \<and> txt \<noteq> uploadPassword env)"
| "ends_session env awaiting u = False"

fun is_upload :: "update \<Rightarrow> bool" where
  "is_upload (CmdUpload now) = True"
| "is_upload u = False"

text \<open>
  The storage call of a document event succeeded in a step when the step made the call
  (\<open>DriveUpload\<close> is among its effects) and the call returned no error. \<open>stored_calls\<close> counts,
  along a run, the document events of a conversation whose storage call succeeded.
\<close>

definition storage_succeeded :: "update \<Rightarrow> action list \<Rightarrow> bool" where
  "storage_succeeded u out \<longleftrightarrow>
     (case u of
        OnDocument fileName fileErr uploadErr \<Rightarrow>
          HasSuffix fileName ''.jar'' \<and> DriveUpload fileName \<in> set out \<and> uploadErr = None
      | _ \<Rightarrow> False)"

fun stored_calls_pc :: "string \<Rightarrow> int64 \<Rightarrow> event list \<Rightarrow> bot_pc \<Rightarrow> nat" where
  "stored_calls_pc env c [] st = 0"
| "stored_calls_pc env c (ev # evs) st =
     (case step_pc env ev st of (st1, out1) \<Rightarrow>
        (if fst ev = c \<and> storage_succeeded (snd ev) out1 then 1 else 0) +
        stored_calls_pc env c evs st1)"

fun stored_calls_pw :: "string \<Rightarrow> int64 \<Rightarrow> event list \<Rightarrow> bot_pw \<Rightarrow> nat" where
  "stored_calls_pw env c [] st = 0"
| "stored_calls_pw env c (ev # evs) st =
     (case step_pw env ev st of (st1, out1) \<Rightarrow>
        (if fst ev = c \<and> storage_succeeded (snd ev) out1 then 1 else 0) +
        stored_calls_pw env c evs st1)"

text \<open>An event that is not an \<^verbatim>\<open>/upload\<close> of the conversation.\<close>

definition no_upload_of :: "int64 \<Rightarrow> event \<Rightarrow> bool" where
  "no_upload_of c ev \<longleftrightarrow> \<not> (fst ev = c \<and> is_upload (snd ev))"

text \<open>
  The stored documents of a conversation that arrive before its first \<^verbatim>\<open>/upload\<close>, \<^verbatim>\<open>/done\<close> or
  \<^verbatim>\<open>/cancel\<close> in the trace.
\<close>

definition stored_before_end :: "int64 \<Rightarrow> event list \<Rightarrow> nat" where
  "stored_before_end c tr = length (filter (stored c) (takeWhile (keeps_session c) tr))"

subsection \<open>Concrete runs\<close>

text \<open>
  Conversation 7 sends \<^verbatim>\<open>/upload\<close> and then the password \<^verbatim>\<open>secret\<close>, in each variant from
  the program's start (main.go without the flag file), and then a trace of documents
  mixed with other traffic.
\<close>

definition demo_pc :: bot_pc where
  "demo_pc = fst (run_pc ''secret'' [(7, CmdUpload 100), (7, OnText ''secret'')] init_pc)"

definition demo_pw :: bot_pw where
  "demo_pw =
     fst (run_pw ''secret'' [(7, CmdUpload 100), (7, OnText ''secret'')] (init_pw False))"

text \<open>The same start, stopped after \<^verbatim>\<open>/upload\<close>: the session awaits the password.\<close>

definition await_pc :: bot_pc where
  "await_pc = fst (run_pc ''secret'' [(7, CmdUpload 100)] init_pc)"

definition await_pw :: bot_pw where
  "await_pw = fst (run_pw ''secret'' [(7, CmdUpload 100)] (init_pw False))"

definition demo_trace :: "event list" where
  "demo_trace =
     [(7, OnDocument ''mod1.jar'' None None),
      (7, OnDocument ''readme.txt'' None None),
      (7, OnDocument ''big.jar'' None (Some ''quota exceeded'')),
      (8, CmdUpload 130),
      (7, OnText ''hello''),
      (7, OnDocument ''lost.jar'' (Some ''timeout'') None),
      (7, OnDocument ''mod2.jar'' None None)]"

text \<open>The uploading states after that trace: session \<open>0\<close> of conversation 7 has stored two files.\<close>

definition busy_pc :: bot_pc where
  "busy_pc = fst (run_pc ''secret'' demo_trace demo_pc)"

definition busy_pw :: bot_pw where
  "busy_pw = fst (run_pw ''secret'' demo_trace demo_pw)"

text \<open>Events after the password: wrong texts, a cancel, a new session, another conversation.\<close>

definition after_auth :: "event list" where
  "after_auth =
     [(7, OnText ''wrong''), (7, OnDocument ''a.jar'' None None), (7, CmdCancel),
      (7, CmdUpload 500), (7, OnText ''wrong''), (8, CmdUpload 600), (8, CmdCancel)]"

text \<open>
  Traces from the uploading states in which conversation 7 sends \<^verbatim>\<open>/upload\<close> again between
  two documents (in part\_000 with the password again), and the first trace followed by
  \<^verbatim>\<open>/done\<close> and late documents.
\<close>

definition restart_pw :: "event list" where
  "restart_pw =
     [(7, OnDocument ''a.jar'' None None), (7, CmdUpload 400),
      (7, OnDocument ''b.jar'' None None)]"

definition restart_pc :: "event list" where
  "restart_pc =
     [(7, OnDocument ''a.jar'' None None), (7, CmdUpload 400), (7, OnText ''secret''),
      (7, OnDocument ''b.jar'' None None)]"

definition done_trace :: "event list" where
  "done_trace =
     demo_trace @
     [(7, CmdDone 900), (7, OnDocument ''late.jar'' None None),
      (8, OnDocument ''other.jar'' None None)]"

section \<open>Basic facts\<close>

lemmas handler_defs =
  handle_start_def handle_done_def handle_cancel_def handle_list_def handle_quantity_def
  handle_upload_pc_def handle_document_pc_def handle_text_pc_def
  handle_upload_pw_def handle_document_pw_def handle_text_pw_def

lemma fst_run_pc_Cons [simp]:
  "fst (run_pc env (ev # evs) st) = fst (run_pc env evs (fst (step_pc env ev st)))"
  by (simp split: prod.splits)

lemma fst_run_pw_Cons [simp]:
  "fst (run_pw env (ev # evs) st) = fst (run_pw env evs (fst (step_pw env ev st)))"
  by (simp split: prod.splits)

text \<open>\<^verbatim>\<open>strings.HasSuffix\<close> says that the string ends with the suffix.\<close>

lemma HasSuffix_iff: "HasSuffix s suffix \<longleftrightarrow> (\<exists>xs. s = xs @ suffix)"
proof
  assume "HasSuffix s suffix"
  then have "drop (length s - length suffix) s = suffix"
    by (simp add: HasSuffix_def)
  then have "s = take (length s - length suffix) s @ suffix"
    using append_take_drop_id [of "length s - length suffix" s] by simp
  then show "\<exists>xs. s = xs @ suffix" ..
next
  assume "\<exists>xs. s = xs @ suffix"
  then show "HasSuffix s suffix"
    by (auto simp: HasSuffix_def)
qed

text \<open>Go's signed \<^verbatim>\<open>int\<close> below the point where it wraps.\<close>

lemma sint_of_nat_small: "n < 2 ^ 63 \<Longrightarrow> sint (of_nat n :: 64 word) = int n"
  by (simp add: signed_of_nat signed_take_bit_int_eq_self)

lemma sint_succ: "sint (x :: 64 word) < 2 ^ 63 - 1 \<Longrightarrow> sint (x + 1) = sint x + 1"
  using sint_greater_eq [of x]
  by (simp add: sint_word_ariths signed_take_bit_int_eq_self)

lemma sint_le_succ: "sint (x :: 64 word) < 2 ^ 63 - 1 \<Longrightarrow> sint x \<le> sint (x + 1)"
  by (simp add: sint_succ)

subsection \<open>The pointers stay sound\<close>

lemma store_invD:
  "store_inv st \<Longrightarrow> uploadSessions st c = Some p \<Longrightarrow>
   p < next_addr st \<and> chatID (heap st p) = c \<and> isActive (heap st p)"
  unfolding store_inv_def by blast

lemma store_inv_init_pc: "store_inv init_pc"
  by (simp add: store_inv_def init_pc_def)

lemma store_inv_init_pw: "store_inv (init_pw flagFile)"
  by (simp add: store_inv_def init_pw_def)

lemma store_inv_step_pc: "store_inv st \<Longrightarrow> store_inv (fst (step_pc env ev st))"
proof -
  assume a: "store_inv st"
  obtain c u where ev: "ev = (c, u)" by (cases ev)
  show ?thesis
    using a unfolding ev
    by (cases u)
      (auto simp: store_inv_def handler_defs Let_def less_Suc_eq split: option.splits sum.splits)
qed

lemma store_inv_step_pw: "store_inv st \<Longrightarrow> store_inv (fst (step_pw env ev st))"
proof -
  assume a: "store_inv st"
  obtain c u where ev: "ev = (c, u)" by (cases ev)
  show ?thesis
    using a unfolding ev
    by (cases u)
      (auto simp: store_inv_def handler_defs Let_def less_Suc_eq split: option.splits sum.splits)
qed

lemma store_inv_run_pc: "store_inv st \<Longrightarrow> store_inv (fst (run_pc env evs st))"
  by (induction evs arbitrary: st) (simp_all add: store_inv_step_pc del: run_pc.simps(2))

lemma store_inv_run_pw: "store_inv st \<Longrightarrow> store_inv (fst (run_pw env evs st))"
  by (induction evs arbitrary: st) (simp_all add: store_inv_step_pw del: run_pw.simps(2))

text \<open>In a sound state, a session in the store is an allocated object, found under its own key.\<close>

lemma in_store_allocated: "store_inv st \<Longrightarrow> in_store st p \<Longrightarrow> p < next_addr st"
  using store_invD unfolding in_store_def by blast

lemma in_store_iff:
  assumes "store_inv st" and "chatID (heap st p) = c"
  shows "in_store st p \<longleftrightarrow> uploadSessions st c = Some p"
  using assms store_invD unfolding in_store_def by blast

subsection \<open>The flag of main.go is cleared for good\<close>

lemma flag_step_pw:
  "\<not> isFirstTimeSetup st \<Longrightarrow> \<not> isFirstTimeSetup (fst (step_pw env ev st))"
proof -
  assume a: "\<not> isFirstTimeSetup st"
  obtain c u where ev: "ev = (c, u)" by (cases ev)
  show ?thesis
    using a unfolding ev
    by (cases u) (auto simp: handler_defs Let_def split: option.splits sum.splits)
qed

lemma flag_run_pw:
  "\<not> isFirstTimeSetup st \<Longrightarrow> \<not> isFirstTimeSetup (fst (run_pw env evs st))"
  by (induction evs arbitrary: st) (simp_all add: flag_step_pw del: run_pw.simps(2))

subsection \<open>What \<^verbatim>\<open>/upload\<close> creates\<close>

lemma upload_after_pc:
  "step_pc env (c, CmdUpload now) st = (st2, out2) \<Longrightarrow>
   out2 = [Send c PromptPassword] \<and> awaiting_pc st2 c (next_addr st)"
  by (auto simp: handle_upload_pc_def awaiting_pc_def Let_def)

lemma upload_after_pw:
  "\<not> isFirstTimeSetup st \<Longrightarrow> step_pw env (c, CmdUpload now) st = (st2, out2) \<Longrightarrow>
   out2 = [Send c SessionStarted] \<and> uploading_pw st2 c (next_addr st)"
  by (auto simp: handle_upload_pw_def uploading_pw_def Let_def)

subsection \<open>A session that is uploading: one event, then a trace\<close>

lemma upload_step_pc:
  assumes "store_inv st" and "uploading_pc st c p" and "keeps_session c ev"
  shows "uploading_pc (fst (step_pc env ev st)) c p \<and>
         uploadCount (heap (fst (step_pc env ev st)) p) =
           uploadCount (heap st p) + (if stored c ev then 1 else 0)"
proof -
  obtain c' u where ev: "ev = (c', u)" by (cases ev)
  show ?thesis
    using assms unfolding ev
    by (cases u)
      (auto simp: store_inv_def uploading_pc_def keeps_session_def stored_def handler_defs
            Let_def split: option.splits sum.splits)
qed

lemma upload_step_pw:
  assumes "store_inv st" and "uploading_pw st c p" and "keeps_session c ev"
  shows "uploading_pw (fst (step_pw env ev st)) c p \<and>
         uploadCount (heap (fst (step_pw env ev st)) p) =
           uploadCount (heap st p) + (if stored c ev then 1 else 0)"
proof -
  obtain c' u where ev: "ev = (c', u)" by (cases ev)
  show ?thesis
    using assms unfolding ev
    by (cases u)
      (auto simp: store_inv_def uploading_pw_def keeps_session_def stored_def handler_defs
            Let_def split: option.splits sum.splits)
qed

lemma upload_run_pc:
  assumes "store_inv st" and "uploading_pc st c p" and "\<forall>ev \<in> set tr. keeps_session c ev"
  shows "uploading_pc (fst (run_pc env tr st)) c p \<and>
         uploadCount (heap (fst (run_pc env tr st)) p) =
           uploadCount (heap st p) + of_nat (length (filter (stored c) tr))"
  using assms
proof (induction tr arbitrary: st)
  case Nil
  then show ?case by simp
next
  case (Cons ev tr)
  let ?st1 = "fst (step_pc env ev st)"
  have k: "keeps_session c ev" using Cons.prems(3) by simp
  have s1: "uploading_pc ?st1 c p"
    and c1: "uploadCount (heap ?st1 p) =
               uploadCount (heap st p) + (if stored c ev then 1 else 0)"
    using upload_step_pc [OF Cons.prems(1,2) k] by simp_all
  have i1: "store_inv ?st1" using Cons.prems(1) by (rule store_inv_step_pc)
  have r: "\<forall>ev \<in> set tr. keeps_session c ev" using Cons.prems(3) by simp
  from Cons.IH [OF i1 s1 r] c1 show ?case
    by (simp del: run_pc.simps(2) add: ac_simps)
qed

lemma upload_run_pw:
  assumes "store_inv st" and "uploading_pw st c p" and "\<forall>ev \<in> set tr. keeps_session c ev"
  shows "uploading_pw (fst (run_pw env tr st)) c p \<and>
         uploadCount (heap (fst (run_pw env tr st)) p) =
           uploadCount (heap st p) + of_nat (length (filter (stored c) tr))"
  using assms
proof (induction tr arbitrary: st)
  case Nil
  then show ?case by simp
next
  case (Cons ev tr)
  let ?st1 = "fst (step_pw env ev st)"
  have k: "keeps_session c ev" using Cons.prems(3) by simp
  have s1: "uploading_pw ?st1 c p"
    and c1: "uploadCount (heap ?st1 p) =
               uploadCount (heap st p) + (if stored c ev then 1 else 0)"
    using upload_step_pw [OF Cons.prems(1,2) k] by simp_all
  have i1: "store_inv ?st1" using Cons.prems(1) by (rule store_inv_step_pw)
  have r: "\<forall>ev \<in> set tr. keeps_session c ev" using Cons.prems(3) by simp
  from Cons.IH [OF i1 s1 r] c1 show ?case
    by (simp del: run_pw.simps(2) add: ac_simps)
qed

subsection \<open>A document that is not stored changes nothing\<close>

lemma failed_document_pc:
  "\<not> stored_jar (OnDocument fileName fileErr uploadErr) \<Longrightarrow>
   fst (step_pc env (c, OnDocument fileName fileErr uploadErr) st) = st"
  by (auto simp: handler_defs Let_def split: option.splits)

lemma failed_document_pw:
  "\<not> stored_jar (OnDocument fileName fileErr uploadErr) \<Longrightarrow>
   fst (step_pw env (c, OnDocument fileName fileErr uploadErr) st) = st"
  by (auto simp: handler_defs Let_def split: option.splits)

subsection \<open>Authentication and the count, one event at a time\<close>

lemma auth_step_pc:
  assumes "p < next_addr st" and "authenticated (heap st p)"
  shows "p < next_addr (fst (step_pc env ev st)) \<and> authenticated (heap (fst (step_pc env ev st)) p)"
proof -
  obtain c u where ev: "ev = (c, u)" by (cases ev)
  show ?thesis
    using assms unfolding ev
    by (cases u) (auto simp: handler_defs Let_def split: option.splits sum.splits)
qed

lemma auth_run_pc:
  "p < next_addr st \<Longrightarrow> authenticated (heap st p) \<Longrightarrow>
   p < next_addr (fst (run_pc env evs st)) \<and> authenticated (heap (fst (run_pc env evs st)) p)"
proof (induction evs arbitrary: st)
  case Nil
  then show ?case by simp
next
  case (Cons ev evs)
  from auth_step_pc [OF Cons.prems] Cons.IH show ?case
    by (simp del: run_pc.simps(2))
qed

lemma count_step_pc:
  assumes "p < next_addr st"
  shows "uploadCount (heap (fst (step_pc env ev st)) p) = uploadCount (heap st p) \<or>
         (uploadCount (heap (fst (step_pc env ev st)) p) = uploadCount (heap st p) + 1 \<and>
          uploading_pc st (fst ev) p \<and> stored_jar (snd ev))"
proof -
  obtain c u where ev: "ev = (c, u)" by (cases ev)
  show ?thesis
    using assms unfolding ev
    by (cases u) (auto simp: handler_defs uploading_pc_def Let_def split: option.splits sum.splits)
qed

lemma count_step_pw:
  assumes "p < next_addr st"
  shows "uploadCount (heap (fst (step_pw env ev st)) p) = uploadCount (heap st p) \<or>
         (uploadCount (heap (fst (step_pw env ev st)) p) = uploadCount (heap st p) + 1 \<and>
          uploading_pw st (fst ev) p \<and> stored_jar (snd ev))"
proof -
  obtain c u where ev: "ev = (c, u)" by (cases ev)
  show ?thesis
    using assms unfolding ev
    by (cases u) (auto simp: handler_defs uploading_pw_def Let_def split: option.splits sum.splits)
qed

subsection \<open>A session in the map, one event at a time\<close>

lemma session_step_pc:
  assumes "store_inv st" and "uploadSessions st c = Some p"
  shows "(uploadSessions (fst (step_pc env ev st)) c = Some p \<longleftrightarrow>
            \<not> (fst ev = c \<and> (ends_session env (\<not> authenticated (heap st p)) (snd ev) \<or> is_upload (snd ev)))) \<and>
         (isActive (heap (fst (step_pc env ev st)) p) \<longleftrightarrow>
            \<not> (fst ev = c \<and> ends_session env (\<not> authenticated (heap st p)) (snd ev))) \<and>
         chatID (heap (fst (step_pc env ev st)) p) = c"
proof -
  obtain c' u where ev: "ev = (c', u)" by (cases ev)
  from assms have d: "p < next_addr st" "chatID (heap st p) = c" "isActive (heap st p)"
    using store_invD by blast+
  have o: "c' \<noteq> c \<Longrightarrow> uploadSessions st c' \<noteq> Some p"
    using assms(1) d(2) store_invD by blast
  show ?thesis
    using assms(2) d o unfolding ev
    by (cases u) (auto simp: handler_defs Let_def split: option.splits sum.splits)
qed

lemma session_step_pw:
  assumes "store_inv st" and "uploadSessions st c = Some p"
  shows "(uploadSessions (fst (step_pw env ev st)) c = Some p \<longleftrightarrow>
            \<not> (fst ev = c \<and> (ends_session env (isFirstTimeSetup st) (snd ev) \<or> is_upload (snd ev)))) \<and>
         (isActive (heap (fst (step_pw env ev st)) p) \<longleftrightarrow>
            \<not> (fst ev = c \<and> ends_session env (isFirstTimeSetup st) (snd ev))) \<and>
         chatID (heap (fst (step_pw env ev st)) p) = c"
proof -
  obtain c' u where ev: "ev = (c', u)" by (cases ev)
  from assms have d: "p < next_addr st" "chatID (heap st p) = c" "isActive (heap st p)"
    using store_invD by blast+
  have o: "c' \<noteq> c \<Longrightarrow> uploadSessions st c' \<noteq> Some p"
    using assms(1) d(2) store_invD by blast
  show ?thesis
    using assms(2) d o unfolding ev
    by (cases u) (auto simp: handler_defs Let_def split: option.splits sum.splits)
qed

lemma leaves_step_pc:
  assumes "store_inv st" and "uploadSessions st c = Some p"
  shows "(leaves_store st (fst (step_pc env ev st)) p \<longleftrightarrow>
            fst ev = c \<and>
            (ends_session env (\<not> authenticated (heap st p)) (snd ev) \<or> is_upload (snd ev))) \<and>
         (uploadSessions (fst (step_pc env ev st)) c = None \<longleftrightarrow>
            fst ev = c \<and> ends_session env (\<not> authenticated (heap st p)) (snd ev)) \<and>
         (goes_inactive st (fst (step_pc env ev st)) p \<longleftrightarrow>
            fst ev = c \<and> ends_session env (\<not> authenticated (heap st p)) (snd ev))"
proof -
  let ?st' = "fst (step_pc env ev st)"
  note s = session_step_pc [OF assms, of env ev]
  have i': "store_inv ?st'" using assms(1) by (rule store_inv_step_pc)
  have a: "in_store st p" using assms(2) unfolding in_store_def by blast
  have b: "in_store ?st' p \<longleftrightarrow> uploadSessions ?st' c = Some p"
    using in_store_iff [OF i'] s by blast
  have act: "isActive (heap st p)" using assms store_invD by blast
  have n: "uploadSessions ?st' c = None \<longleftrightarrow>
      fst ev = c \<and> ends_session env (\<not> authenticated (heap st p)) (snd ev)"
  proof -
    obtain c' u where ev: "ev = (c', u)" by (cases ev)
    show ?thesis
      using assms(2) act unfolding ev
      by (cases u) (auto simp: handler_defs Let_def split: option.splits sum.splits)
  qed
  from a b s act n show ?thesis
    unfolding leaves_store_def goes_inactive_def by blast
qed

lemma leaves_step_pw:
  assumes "store_inv st" and "uploadSessions st c = Some p"
  shows "(leaves_store st (fst (step_pw env ev st)) p \<longleftrightarrow>
            fst ev = c \<and>
            (ends_session env (isFirstTimeSetup st) (snd ev) \<or> is_upload (snd ev))) \<and>
         (uploadSessions (fst (step_pw env ev st)) c = None \<longleftrightarrow>
            fst ev = c \<and> ends_session env (isFirstTimeSetup st) (snd ev)) \<and>
         (goes_inactive st (fst (step_pw env ev st)) p \<longleftrightarrow>
            fst ev = c \<and> ends_session env (isFirstTimeSetup st) (snd ev))"
proof -
  let ?st' = "fst (step_pw env ev st)"
  note s = session_step_pw [OF assms, of env ev]
  have i': "store_inv ?st'" using assms(1) by (rule store_inv_step_pw)
  have a: "in_store st p" using assms(2) unfolding in_store_def by blast
  have b: "in_store ?st' p \<longleftrightarrow> uploadSessions ?st' c = Some p"
    using in_store_iff [OF i'] s by blast
  have act: "isActive (heap st p)" using assms store_invD by blast
  have n: "uploadSessions ?st' c = None \<longleftrightarrow>
      fst ev = c \<and> ends_session env (isFirstTimeSetup st) (snd ev)"
  proof -
    obtain c' u where ev: "ev = (c', u)" by (cases ev)
    show ?thesis
      using assms(2) act unfolding ev
      by (cases u) (auto simp: handler_defs Let_def split: option.splits sum.splits)
  qed
  from a b s act n show ?thesis
    unfolding leaves_store_def goes_inactive_def by blast
qed

subsection \<open>The concrete runs, evaluated\<close>

lemma demo_pc_eq:
  "demo_pc =
     \<lparr>heap = (heap init_pc)(0 := \<lparr>chatID = 7, isActive = True, uploadCount = 0,
                startTime = 100, authenticated = True\<rparr>),
      next_addr = 1, uploadSessions = [7 \<mapsto> 0]\<rparr>"
  by (simp add: demo_pc_def init_pc_def handle_upload_pc_def handle_text_pc_def
      uploadPassword_def)

lemma demo_pw_eq:
  "demo_pw =
     \<lparr>heap = (heap (init_pw False))(0 := \<lparr>chatID = 7, isActive = True, uploadCount = 0,
                startTime = 100\<rparr>),
      next_addr = 1, uploadSessions = [7 \<mapsto> 0], isFirstTimeSetup = False\<rparr>"
  by (simp add: demo_pw_def init_pw_def handle_upload_pw_def handle_text_pw_def
      uploadPassword_def)

lemma demo_pc_ok:
  "store_inv demo_pc" "uploading_pc demo_pc 7 0" "uploadCount (heap demo_pc 0) = 0"
  by (simp_all add: demo_pc_eq store_inv_def uploading_pc_def)

lemma demo_pw_ok:
  "store_inv demo_pw" "uploading_pw demo_pw 7 0" "uploadCount (heap demo_pw 0) = 0"
  by (simp_all add: demo_pw_eq store_inv_def uploading_pw_def)

lemma await_pc_eq:
  "await_pc =
     \<lparr>heap = (heap init_pc)(0 := \<lparr>chatID = 7, isActive = True, uploadCount = 0,
                startTime = 100, authenticated = False\<rparr>),
      next_addr = 1, uploadSessions = [7 \<mapsto> 0]\<rparr>"
  by (simp add: await_pc_def init_pc_def handle_upload_pc_def)

lemma await_pw_eq:
  "await_pw =
     \<lparr>heap = (heap (init_pw False))(0 := \<lparr>chatID = 7, isActive = True, uploadCount = 0,
                startTime = 100\<rparr>),
      next_addr = 1, uploadSessions = [7 \<mapsto> 0], isFirstTimeSetup = True\<rparr>"
  by (simp add: await_pw_def init_pw_def handle_upload_pw_def)

lemma await_pc_ok: "store_inv await_pc" "awaiting_pc await_pc 7 0"
  by (simp_all add: await_pc_eq store_inv_def awaiting_pc_def)

lemma await_pw_ok: "store_inv await_pw" "awaiting_pw await_pw 7 0"
  by (simp_all add: await_pw_eq store_inv_def awaiting_pw_def)

lemma demo_trace_keeps: "\<forall>ev \<in> set demo_trace. keeps_session 7 ev"
  by (simp add: demo_trace_def keeps_session_def)

lemma demo_trace_stored: "length (filter (stored 7) demo_trace) = 2"
  by (simp add: demo_trace_def stored_def HasSuffix_def)

lemma busy_pc_ok:
  "store_inv busy_pc" "uploading_pc busy_pc 7 0" "uploadCount (heap busy_pc 0) = 2"
  using upload_run_pc [OF demo_pc_ok(1,2) demo_trace_keeps, of "''secret''"]
    store_inv_run_pc [OF demo_pc_ok(1), of "''secret''" demo_trace]
  by (simp_all add: busy_pc_def demo_trace_stored demo_pc_ok(3))

lemma busy_pw_ok:
  "store_inv busy_pw" "uploading_pw busy_pw 7 0" "uploadCount (heap busy_pw 0) = 2"
  using upload_run_pw [OF demo_pw_ok(1,2) demo_trace_keeps, of "''secret''"]
    store_inv_run_pw [OF demo_pw_ok(1), of "''secret''" demo_trace]
  by (simp_all add: busy_pw_def demo_trace_stored demo_pw_ok(3))

lemma busy_next: "next_addr busy_pc = 2" "next_addr busy_pw = 2"
  by (simp_all add: busy_pc_def busy_pw_def demo_trace_def demo_pc_eq demo_pw_eq handler_defs
      HasSuffix_def init_pc_def init_pw_def Let_def)

text \<open>The same states by running the handlers on the trace, event by event.\<close>

lemma busy_pc_session:
  "heap busy_pc 0 = \<lparr>chatID = 7, isActive = True, uploadCount = 2, startTime = 100,
                       authenticated = True\<rparr>"
  "uploadSessions busy_pc 7 = Some 0"
  by (simp_all add: busy_pc_def demo_trace_def demo_pc_eq handler_defs HasSuffix_def
      init_pc_def Let_def)

lemma busy_pw_session:
  "heap busy_pw 0 = \<lparr>chatID = 7, isActive = True, uploadCount = 2, startTime = 100\<rparr>"
  "uploadSessions busy_pw 7 = Some 0" "\<not> isFirstTimeSetup busy_pw"
  by (simp_all add: busy_pw_def demo_trace_def demo_pw_eq handler_defs HasSuffix_def
      init_pw_def Let_def)

lemma busy_pc_map: "uploadSessions busy_pc = [7 \<mapsto> 0, 8 \<mapsto> 1]"
  by (simp add: busy_pc_def demo_trace_def demo_pc_eq handler_defs HasSuffix_def
      init_pc_def Let_def)

lemma busy_pw_map: "uploadSessions busy_pw = [7 \<mapsto> 0, 8 \<mapsto> 1]"
  by (simp add: busy_pw_def demo_trace_def demo_pw_eq handler_defs HasSuffix_def
      init_pw_def Let_def)

subsection \<open>A session that left the store is not written again\<close>

lemma stored_calls_pc_Cons:
  "stored_calls_pc env c (ev # evs) st =
     (if fst ev = c \<and> storage_succeeded (snd ev) (snd (step_pc env ev st)) then 1 else 0) +
     stored_calls_pc env c evs (fst (step_pc env ev st))"
  by (simp split: prod.splits)

lemma stored_calls_pw_Cons:
  "stored_calls_pw env c (ev # evs) st =
     (if fst ev = c \<and> storage_succeeded (snd ev) (snd (step_pw env ev st)) then 1 else 0) +
     stored_calls_pw env c evs (fst (step_pw env ev st))"
  by (simp split: prod.splits)

lemma frozen_step_pc:
  assumes "p < next_addr st" and "\<not> in_store st p"
  shows "heap (fst (step_pc env ev st)) p = heap st p \<and>
         p < next_addr (fst (step_pc env ev st)) \<and> \<not> in_store (fst (step_pc env ev st)) p"
proof -
  obtain c u where ev: "ev = (c, u)" by (cases ev)
  show ?thesis
    using assms unfolding ev in_store_def
    by (cases u) (auto simp: handler_defs Let_def split: option.splits sum.splits if_splits)
qed

lemma frozen_step_pw:
  assumes "p < next_addr st" and "\<not> in_store st p"
  shows "heap (fst (step_pw env ev st)) p = heap st p \<and>
         p < next_addr (fst (step_pw env ev st)) \<and> \<not> in_store (fst (step_pw env ev st)) p"
proof -
  obtain c u where ev: "ev = (c, u)" by (cases ev)
  show ?thesis
    using assms unfolding ev in_store_def
    by (cases u) (auto simp: handler_defs Let_def split: option.splits sum.splits if_splits)
qed

lemma frozen_run_pc:
  "p < next_addr st \<Longrightarrow> \<not> in_store st p \<Longrightarrow> heap (fst (run_pc env evs st)) p = heap st p"
proof (induction evs arbitrary: st)
  case Nil
  then show ?case by simp
next
  case (Cons ev evs)
  from frozen_step_pc [OF Cons.prems, of env ev] Cons.IH [of "fst (step_pc env ev st)"]
  show ?case by (simp del: run_pc.simps(2))
qed

lemma frozen_run_pw:
  "p < next_addr st \<Longrightarrow> \<not> in_store st p \<Longrightarrow> heap (fst (run_pw env evs st)) p = heap st p"
proof (induction evs arbitrary: st)
  case Nil
  then show ?case by simp
next
  case (Cons ev evs)
  from frozen_step_pw [OF Cons.prems, of env ev] Cons.IH [of "fst (step_pw env ev st)"]
  show ?case by (simp del: run_pw.simps(2))
qed

lemma end_step_pc:
  assumes "store_inv st" and "uploading_pc st c p" and "\<not> keeps_session c ev"
  shows "uploadCount (heap (fst (step_pc env ev st)) p) = uploadCount (heap st p) \<and>
         p < next_addr (fst (step_pc env ev st)) \<and> \<not> in_store (fst (step_pc env ev st)) p"
proof -
  let ?st' = "fst (step_pc env ev st)"
  have m: "uploadSessions st c = Some p" using assms(2) by (simp add: uploading_pc_def)
  have lt: "p < next_addr st" using store_invD [OF assms(1) m] by simp
  have e: "fst ev = c" "ends_or_restarts (snd ev)"
    using assms(3) by (simp_all add: keeps_session_def)
  then have "ends_session env (\<not> authenticated (heap st p)) (snd ev) \<or> is_upload (snd ev)"
    by (cases "snd ev") simp_all
  with leaves_step_pc [OF assms(1) m, of env ev] e
  have 1: "\<not> in_store ?st' p" by (simp add: leaves_store_def)
  have 2: "uploadCount (heap ?st' p) = uploadCount (heap st p)"
    using count_step_pc [OF lt, of env ev] e(2) by (cases "snd ev") auto
  have 3: "p < next_addr ?st'"
  proof -
    obtain c' u where ev: "ev = (c', u)" by (cases ev)
    show ?thesis using lt unfolding ev
      by (cases u) (auto simp: handler_defs Let_def split: option.splits sum.splits)
  qed
  from 1 2 3 show ?thesis by simp
qed

lemma end_step_pw:
  assumes "store_inv st" and "uploading_pw st c p" and "\<not> keeps_session c ev"
  shows "uploadCount (heap (fst (step_pw env ev st)) p) = uploadCount (heap st p) \<and>
         p < next_addr (fst (step_pw env ev st)) \<and> \<not> in_store (fst (step_pw env ev st)) p"
proof -
  let ?st' = "fst (step_pw env ev st)"
  have m: "uploadSessions st c = Some p" using assms(2) by (simp add: uploading_pw_def)
  have lt: "p < next_addr st" using store_invD [OF assms(1) m] by simp
  have e: "fst ev = c" "ends_or_restarts (snd ev)"
    using assms(3) by (simp_all add: keeps_session_def)
  then have "ends_session env (isFirstTimeSetup st) (snd ev) \<or> is_upload (snd ev)"
    by (cases "snd ev") simp_all
  with leaves_step_pw [OF assms(1) m, of env ev] e
  have 1: "\<not> in_store ?st' p" by (simp add: leaves_store_def)
  have 2: "uploadCount (heap ?st' p) = uploadCount (heap st p)"
    using count_step_pw [OF lt, of env ev] e(2) by (cases "snd ev") auto
  have 3: "p < next_addr ?st'"
  proof -
    obtain c' u where ev: "ev = (c', u)" by (cases ev)
    show ?thesis using lt unfolding ev
      by (cases u) (auto simp: handler_defs Let_def split: option.splits sum.splits)
  qed
  from 1 2 3 show ?thesis by simp
qed

lemma count_any_run_pc:
  assumes "store_inv st" and "uploading_pc st c p"
  shows "uploadCount (heap (fst (run_pc env tr st)) p) =
           uploadCount (heap st p) +
           of_nat (length (filter (stored c) (takeWhile (keeps_session c) tr)))"
  using assms
proof (induction tr arbitrary: st)
  case Nil
  then show ?case by simp
next
  case (Cons ev tr)
  let ?st1 = "fst (step_pc env ev st)"
  show ?case
  proof (cases "keeps_session c ev")
    case True
    note s = upload_step_pc [OF Cons.prems True, of env]
    have i1: "store_inv ?st1" using Cons.prems(1) by (rule store_inv_step_pc)
    from Cons.IH [OF i1 conjunct1 [OF s]] conjunct2 [OF s] True show ?thesis
      by (simp del: run_pc.simps(2) add: ac_simps)
  next
    case False
    note e = end_step_pc [OF Cons.prems False, of env]
    from e have "heap (fst (run_pc env tr ?st1)) p = heap ?st1 p"
      by (intro frozen_run_pc) simp_all
    with e False show ?thesis by (simp del: run_pc.simps(2))
  qed
qed

lemma count_any_run_pw:
  assumes "store_inv st" and "uploading_pw st c p"
  shows "uploadCount (heap (fst (run_pw env tr st)) p) =
           uploadCount (heap st p) +
           of_nat (length (filter (stored c) (takeWhile (keeps_session c) tr)))"
  using assms
proof (induction tr arbitrary: st)
  case Nil
  then show ?case by simp
next
  case (Cons ev tr)
  let ?st1 = "fst (step_pw env ev st)"
  show ?case
  proof (cases "keeps_session c ev")
    case True
    note s = upload_step_pw [OF Cons.prems True, of env]
    have i1: "store_inv ?st1" using Cons.prems(1) by (rule store_inv_step_pw)
    from Cons.IH [OF i1 conjunct1 [OF s]] conjunct2 [OF s] True show ?thesis
      by (simp del: run_pw.simps(2) add: ac_simps)
  next
    case False
    note e = end_step_pw [OF Cons.prems False, of env]
    from e have "heap (fst (run_pw env tr ?st1)) p = heap ?st1 p"
      by (intro frozen_run_pw) simp_all
    with e False show ?thesis by (simp del: run_pw.simps(2))
  qed
qed


lemma calls_step_pc:
  assumes "store_inv st" and "uploading_pc st c p" and "keeps_session c ev"
  shows "(fst ev = c \<and> storage_succeeded (snd ev) (snd (step_pc env ev st))) \<longleftrightarrow> stored c ev"
proof -
  obtain c' u where ev: "ev = (c', u)" by (cases ev)
  show ?thesis
    using assms unfolding ev
    by (cases u)
      (auto simp: uploading_pc_def stored_def storage_succeeded_def handler_defs Let_def
            split: option.splits sum.splits)
qed

lemma calls_step_pw:
  assumes "store_inv st" and "uploading_pw st c p" and "keeps_session c ev"
  shows "(fst ev = c \<and> storage_succeeded (snd ev) (snd (step_pw env ev st))) \<longleftrightarrow> stored c ev"
proof -
  obtain c' u where ev: "ev = (c', u)" by (cases ev)
  show ?thesis
    using assms unfolding ev
    by (cases u)
      (auto simp: uploading_pw_def stored_def storage_succeeded_def handler_defs Let_def
            split: option.splits sum.splits)
qed

lemma no_session_step_pc:
  assumes "uploadSessions st c = None" and "no_upload_of c ev"
  shows "uploadSessions (fst (step_pc env ev st)) c = None \<and>
         \<not> (fst ev = c \<and> storage_succeeded (snd ev) (snd (step_pc env ev st)))"
proof -
  obtain c' u where ev: "ev = (c', u)" by (cases ev)
  show ?thesis
    using assms unfolding ev
    by (cases u)
      (auto simp: no_upload_of_def storage_succeeded_def handler_defs Let_def
            split: option.splits sum.splits)
qed

lemma no_session_step_pw:
  assumes "uploadSessions st c = None" and "no_upload_of c ev"
  shows "uploadSessions (fst (step_pw env ev st)) c = None \<and>
         \<not> (fst ev = c \<and> storage_succeeded (snd ev) (snd (step_pw env ev st)))"
proof -
  obtain c' u where ev: "ev = (c', u)" by (cases ev)
  show ?thesis
    using assms unfolding ev
    by (cases u)
      (auto simp: no_upload_of_def storage_succeeded_def handler_defs Let_def
            split: option.splits sum.splits)
qed

lemma no_session_calls_pc:
  "uploadSessions st c = None \<Longrightarrow> \<forall>ev \<in> set tr. no_upload_of c ev \<Longrightarrow>
   stored_calls_pc env c tr st = 0"
proof (induction tr arbitrary: st)
  case Nil
  then show ?case by simp
next
  case (Cons ev tr)
  have n: "no_upload_of c ev" and r: "\<forall>ev \<in> set tr. no_upload_of c ev"
    using Cons.prems(2) by simp_all
  note s = no_session_step_pc [OF Cons.prems(1) n, of env]
  from Cons.IH [OF conjunct1 [OF s] r] conjunct2 [OF s] show ?case
    unfolding stored_calls_pc_Cons by simp
qed

lemma no_session_calls_pw:
  "uploadSessions st c = None \<Longrightarrow> \<forall>ev \<in> set tr. no_upload_of c ev \<Longrightarrow>
   stored_calls_pw env c tr st = 0"
proof (induction tr arbitrary: st)
  case Nil
  then show ?case by simp
next
  case (Cons ev tr)
  have n: "no_upload_of c ev" and r: "\<forall>ev \<in> set tr. no_upload_of c ev"
    using Cons.prems(2) by simp_all
  note s = no_session_step_pw [OF Cons.prems(1) n, of env]
  from Cons.IH [OF conjunct1 [OF s] r] conjunct2 [OF s] show ?case
    unfolding stored_calls_pw_Cons by simp
qed

lemma ended_step_pc:
  assumes "store_inv st" and "uploading_pc st c p" and "\<not> keeps_session c ev"
    and "no_upload_of c ev"
  shows "uploadSessions (fst (step_pc env ev st)) c = None \<and>
         \<not> storage_succeeded (snd ev) (snd (step_pc env ev st))"
proof -
  obtain c' u where ev: "ev = (c', u)" by (cases ev)
  show ?thesis
    using assms unfolding ev
    by (cases u)
      (auto simp: uploading_pc_def keeps_session_def no_upload_of_def storage_succeeded_def
            handler_defs Let_def split: option.splits sum.splits)
qed

lemma ended_step_pw:
  assumes "store_inv st" and "uploading_pw st c p" and "\<not> keeps_session c ev"
    and "no_upload_of c ev"
  shows "uploadSessions (fst (step_pw env ev st)) c = None \<and>
         \<not> storage_succeeded (snd ev) (snd (step_pw env ev st))"
proof -
  obtain c' u where ev: "ev = (c', u)" by (cases ev)
  show ?thesis
    using assms unfolding ev
    by (cases u)
      (auto simp: uploading_pw_def keeps_session_def no_upload_of_def storage_succeeded_def
            handler_defs Let_def split: option.splits sum.splits)
qed

lemma calls_run_pc:
  assumes "store_inv st" and "uploading_pc st c p" and "\<forall>ev \<in> set tr. no_upload_of c ev"
  shows "stored_calls_pc env c tr st =
           length (filter (stored c) (takeWhile (keeps_session c) tr))"
  using assms
proof (induction tr arbitrary: st)
  case Nil
  then show ?case by simp
next
  case (Cons ev tr)
  let ?st1 = "fst (step_pc env ev st)"
  have n: "no_upload_of c ev" and r: "\<forall>ev \<in> set tr. no_upload_of c ev"
    using Cons.prems(3) by simp_all
  show ?case
  proof (cases "keeps_session c ev")
    case True
    note s = upload_step_pc [OF Cons.prems(1,2) True, of env]
    have i1: "store_inv ?st1" using Cons.prems(1) by (rule store_inv_step_pc)
    from Cons.IH [OF i1 conjunct1 [OF s] r] calls_step_pc [OF Cons.prems(1,2) True, of env] True
    show ?thesis unfolding stored_calls_pc_Cons by simp
  next
    case False
    note e = ended_step_pc [OF Cons.prems(1,2) False n, of env]
    from no_session_calls_pc [OF conjunct1 [OF e] r, of env] conjunct2 [OF e] False
    show ?thesis unfolding stored_calls_pc_Cons by simp
  qed
qed

lemma calls_run_pw:
  assumes "store_inv st" and "uploading_pw st c p" and "\<forall>ev \<in> set tr. no_upload_of c ev"
  shows "stored_calls_pw env c tr st =
           length (filter (stored c) (takeWhile (keeps_session c) tr))"
  using assms
proof (induction tr arbitrary: st)
  case Nil
  then show ?case by simp
next
  case (Cons ev tr)
  let ?st1 = "fst (step_pw env ev st)"
  have n: "no_upload_of c ev" and r: "\<forall>ev \<in> set tr. no_upload_of c ev"
    using Cons.prems(3) by simp_all
  show ?case
  proof (cases "keeps_session c ev")
    case True
    note s = upload_step_pw [OF Cons.prems(1,2) True, of env]
    have i1: "store_inv ?st1" using Cons.prems(1) by (rule store_inv_step_pw)
    from Cons.IH [OF i1 conjunct1 [OF s] r] calls_step_pw [OF Cons.prems(1,2) True, of env] True
    show ?thesis unfolding stored_calls_pw_Cons by simp
  next
    case False
    note e = ended_step_pw [OF Cons.prems(1,2) False n, of env]
    from no_session_calls_pw [OF conjunct1 [OF e] r, of env] conjunct2 [OF e] False
    show ?thesis unfolding stored_calls_pw_Cons by simp
  qed
qed

lemma done_trace_facts:
  "\<forall>ev \<in> set done_trace. no_upload_of 7 ev" "stored_before_end 7 done_trace = 2"
  "stored_before_end 7 demo_trace = 2"
  "stored_before_end 7 restart_pc = 1" "stored_before_end 7 restart_pw = 1"
  by (simp_all add: done_trace_def demo_trace_def restart_pc_def restart_pw_def no_upload_of_def
      stored_before_end_def keeps_session_def stored_def HasSuffix_def)

subsection \<open>The document handler is its two phases with nothing in between\<close>

lemma handle_document_pc_phases:
  "handle_document_pc c fileName fileErr uploadErr st =
     (case document_check_pc c fileName st of
        (None, out) \<Rightarrow> (st, out)
      | (Some pd, out) \<Rightarrow>
          (case document_complete pd fileErr uploadErr st of (st1, out1) \<Rightarrow> (st1, out @ out1)))"
  by (simp add: handle_document_pc_def document_check_pc_def Let_def
      split: option.splits)

lemma handle_document_pw_phases:
  "handle_document_pw c fileName fileErr uploadErr st =
     (case document_check_pw c fileName st of
        (None, out) \<Rightarrow> (st, out)
      | (Some pd, out) \<Rightarrow>
          (case document_complete pd fileErr uploadErr st of (st1, out1) \<Rightarrow> (st1, out @ out1)))"
  by (simp add: handle_document_pw_def document_check_pw_def Let_def
      split: option.splits)

lemma serial_document_pc:
  "sched_run_pc env [DocBegin c fileName, DocEnd (length ps) fileErr uploadErr] (st, ps) =
     (case step_pc env (c, OnDocument fileName fileErr uploadErr) st of
        (st1, out) \<Rightarrow> ((st1, ps), out))"
  by (cases "document_check_pc c fileName st")
    (auto simp: handle_document_pc_phases split: prod.splits option.splits)

lemma serial_document_pw:
  "sched_run_pw env [DocBegin c fileName, DocEnd (length ps) fileErr uploadErr] (st, ps) =
     (case step_pw env (c, OnDocument fileName fileErr uploadErr) st of
        (st1, out) \<Rightarrow> ((st1, ps), out))"
  by (cases "document_check_pw c fileName st")
    (auto simp: handle_document_pw_phases split: prod.splits option.splits)

subsection \<open>The count when no handler is overtaken\<close>

text \<open>
  With every handler run to its end before the next, a session object's count changes by
  one increment only, on a stored document of its conversation that finds it active and
  authenticated.
\<close>

lemma count_uninterrupted:
  "(p < next_addr st \<longrightarrow>
      (sint (uploadCount (heap st p)) < 2 ^ 63 - 1 \<longrightarrow>
         sint (uploadCount (heap st p)) \<le> sint (uploadCount (heap (fst (step_pc env ev st)) p))) \<and>
      (uploadCount (heap (fst (step_pc env ev st)) p) \<noteq> uploadCount (heap st p) \<longrightarrow>
         uploading_pc st (fst ev) p \<and> stored_jar (snd ev) \<and>
         uploadCount (heap (fst (step_pc env ev st)) p) = uploadCount (heap st p) + 1)) \<and>
   (q < next_addr sw \<longrightarrow>
      (sint (uploadCount (heap sw q)) < 2 ^ 63 - 1 \<longrightarrow>
         sint (uploadCount (heap sw q)) \<le> sint (uploadCount (heap (fst (step_pw env ev sw)) q))) \<and>
      (uploadCount (heap (fst (step_pw env ev sw)) q) \<noteq> uploadCount (heap sw q) \<longrightarrow>
         uploading_pw sw (fst ev) q \<and> stored_jar (snd ev) \<and>
         uploadCount (heap (fst (step_pw env ev sw)) q) = uploadCount (heap sw q) + 1))"
proof (intro conjI impI)
  assume lt: "p < next_addr st" and b: "sint (uploadCount (heap st p)) < 2 ^ 63 - 1"
  from count_step_pc [OF lt, of env ev] sint_le_succ [OF b]
  show "sint (uploadCount (heap st p)) \<le> sint (uploadCount (heap (fst (step_pc env ev st)) p))"
    by auto
next
  assume lt: "p < next_addr st"
    and n: "uploadCount (heap (fst (step_pc env ev st)) p) \<noteq> uploadCount (heap st p)"
  from count_step_pc [OF lt, of env ev] n
  show "uploading_pc st (fst ev) p" and "stored_jar (snd ev)"
    and "uploadCount (heap (fst (step_pc env ev st)) p) = uploadCount (heap st p) + 1"
    by blast+
next
  assume lt: "q < next_addr sw" and b: "sint (uploadCount (heap sw q)) < 2 ^ 63 - 1"
  from count_step_pw [OF lt, of env ev] sint_le_succ [OF b]
  show "sint (uploadCount (heap sw q)) \<le> sint (uploadCount (heap (fst (step_pw env ev sw)) q))"
    by auto
next
  assume lt: "q < next_addr sw"
    and n: "uploadCount (heap (fst (step_pw env ev sw)) q) \<noteq> uploadCount (heap sw q)"
  from count_step_pw [OF lt, of env ev] n
  show "uploading_pw sw (fst ev) q" and "stored_jar (snd ev)"
    and "uploadCount (heap (fst (step_pw env ev sw)) q) = uploadCount (heap sw q) + 1"
    by blast+
qed

subsection \<open>The count under any schedule\<close>

text \<open>
  Whatever the order of the pieces, one piece leaves the count of a session object that
  exists as it was or adds one to it.
\<close>

lemma count_complete:
  "uploadCount (heap (fst (document_complete pd fileErr uploadErr st)) p) = uploadCount (heap st p) \<or>
   uploadCount (heap (fst (document_complete pd fileErr uploadErr st)) p) = uploadCount (heap st p) + 1"
  by (cases pd) (auto simp: Let_def split: option.splits)

lemma count_sched_step_pc:
  assumes "p < next_addr (fst cf)"
  shows "uploadCount (heap (fst (fst (sched_step_pc env s cf))) p) = uploadCount (heap (fst cf) p) \<or>
         uploadCount (heap (fst (fst (sched_step_pc env s cf))) p) = uploadCount (heap (fst cf) p) + 1"
proof -
  obtain st ps where cf: "cf = (st, ps)" by (cases cf)
  show ?thesis
  proof (cases s)
    case (Whole ev)
    with count_step_pc [of p st env ev] assms show ?thesis
      unfolding cf by (auto split: prod.splits)
  next
    case (DocBegin c fileName)
    then show ?thesis unfolding cf by (auto split: prod.splits option.splits)
  next
    case (DocEnd k fileErr uploadErr)
    with count_complete [of "ps ! k" fileErr uploadErr st p] show ?thesis
      unfolding cf by (auto split: prod.splits)
  qed
qed

lemma count_sched_step_pw:
  assumes "p < next_addr (fst cf)"
  shows "uploadCount (heap (fst (fst (sched_step_pw env s cf))) p) = uploadCount (heap (fst cf) p) \<or>
         uploadCount (heap (fst (fst (sched_step_pw env s cf))) p) = uploadCount (heap (fst cf) p) + 1"
proof -
  obtain st ps where cf: "cf = (st, ps)" by (cases cf)
  show ?thesis
  proof (cases s)
    case (Whole ev)
    with count_step_pw [of p st env ev] assms show ?thesis
      unfolding cf by (auto split: prod.splits)
  next
    case (DocBegin c fileName)
    then show ?thesis unfolding cf by (auto split: prod.splits option.splits)
  next
    case (DocEnd k fileErr uploadErr)
    with count_complete [of "ps ! k" fileErr uploadErr st p] show ?thesis
      unfolding cf by (auto split: prod.splits)
  qed
qed

section \<open>The claims\<close>

text \<open>
  C1, as stated, fails on a trace in which the conversation sends \<^verbatim>\<open>/upload\<close> again. From the
  fresh authenticated session \<open>0\<close> of conversation 7: a stored document, \<^verbatim>\<open>/upload\<close> (in
  part\_000 followed by the password), a second stored document. Two document events of the
  trace have a \<^verbatim>\<open>.jar\<close> name and a storage call that succeeded, and the session's
  \<open>uploadCount\<close> is 1; so is that of the session \<open>1\<close> that took its place.
\<close>

theorem C1_restart_counterexample:
  "uploading_pc demo_pc 7 0 \<and> uploadCount (heap demo_pc 0) = 0 \<and>
   stored_calls_pc ''secret'' 7 restart_pc demo_pc = 2 \<and>
   uploadCount (heap (fst (run_pc ''secret'' restart_pc demo_pc)) 0) = 1 \<and>
   uploadSessions (fst (run_pc ''secret'' restart_pc demo_pc)) 7 = Some 1 \<and>
   uploadCount (heap (fst (run_pc ''secret'' restart_pc demo_pc)) 1) = 1 \<and>
   uploading_pw demo_pw 7 0 \<and> uploadCount (heap demo_pw 0) = 0 \<and>
   stored_calls_pw ''secret'' 7 restart_pw demo_pw = 2 \<and>
   uploadCount (heap (fst (run_pw ''secret'' restart_pw demo_pw)) 0) = 1 \<and>
   uploadSessions (fst (run_pw ''secret'' restart_pw demo_pw)) 7 = Some 1 \<and>
   uploadCount (heap (fst (run_pw ''secret'' restart_pw demo_pw)) 1) = 1"
  by (simp add: demo_pc_ok demo_pw_ok)
    (simp add: restart_pc_def restart_pw_def demo_pc_eq demo_pw_eq init_pc_def init_pw_def
      handler_defs storage_succeeded_def HasSuffix_def uploadPassword_def Let_def)

text \<open>
  C1, amended. From a state in which conversation \<open>c\<close> has a fresh session \<open>p\<close> that is active
  and authenticated (\<open>uploadCount = 0\<close>), after every trace the \<open>uploadCount\<close> of \<open>p\<close> is the
  number of the document events of \<open>c\<close> that arrive before the first \<^verbatim>\<open>/upload\<close>, \<^verbatim>\<open>/done\<close> or
  \<^verbatim>\<open>/cancel\<close> of \<open>c\<close> in the trace, whose name ends in \<^verbatim>\<open>.jar\<close> and whose download and storage
  calls succeed (\<open>stored_before_end\<close>): as a machine integer always, and read as a signed
  number as long as that number is below \<open>2^63\<close>. When the trace has no \<^verbatim>\<open>/upload\<close> of \<open>c\<close>, this
  is the number of all document events of \<open>c\<close> in the run whose storage call succeeded
  (\<open>stored_calls\<close>): after \<^verbatim>\<open>/done\<close> or \<^verbatim>\<open>/cancel\<close> no storage call is made for \<open>c\<close>. When the
  trace has none of the three commands of \<open>c\<close>, all stored documents of \<open>c\<close> count and the
  session is still the conversation's, active and authenticated. A document event that is
  not such a success (wrong suffix, failed download, failed storage) leaves the whole state,
  hence every \<open>uploadCount\<close>, as it was, whatever the state. In both variants, for handlers
  that run one after the other.
\<close>

theorem C1_upload_count:
  "(store_inv st \<and> uploading_pc st c p \<and> uploadCount (heap st p) = 0 \<longrightarrow>
      uploadCount (heap (fst (run_pc env tr st)) p) = of_nat (stored_before_end c tr) \<and>
      (stored_before_end c tr < 2 ^ 63 \<longrightarrow>
         sint (uploadCount (heap (fst (run_pc env tr st)) p)) = int (stored_before_end c tr)) \<and>
      ((\<forall>ev \<in> set tr. no_upload_of c ev) \<longrightarrow>
         stored_calls_pc env c tr st = stored_before_end c tr) \<and>
      ((\<forall>ev \<in> set tr. keeps_session c ev) \<longrightarrow>
         stored_before_end c tr = length (filter (stored c) tr) \<and>
         uploading_pc (fst (run_pc env tr st)) c p)) \<and>
   (store_inv sw \<and> uploading_pw sw c q \<and> uploadCount (heap sw q) = 0 \<longrightarrow>
      uploadCount (heap (fst (run_pw env tr sw)) q) = of_nat (stored_before_end c tr) \<and>
      (stored_before_end c tr < 2 ^ 63 \<longrightarrow>
         sint (uploadCount (heap (fst (run_pw env tr sw)) q)) = int (stored_before_end c tr)) \<and>
      ((\<forall>ev \<in> set tr. no_upload_of c ev) \<longrightarrow>
         stored_calls_pw env c tr sw = stored_before_end c tr) \<and>
      ((\<forall>ev \<in> set tr. keeps_session c ev) \<longrightarrow>
         stored_before_end c tr = length (filter (stored c) tr) \<and>
         uploading_pw (fst (run_pw env tr sw)) c q)) \<and>
   (is_document u \<and> \<not> stored_jar u \<longrightarrow>
      fst (step_pc env (c, u) st) = st \<and> fst (step_pw env (c, u) sw) = sw)"
proof (intro conjI impI)
  assume h: "store_inv st \<and> uploading_pc st c p \<and> uploadCount (heap st p) = 0"
  from h count_any_run_pc [of st c p env tr]
  show e: "uploadCount (heap (fst (run_pc env tr st)) p) = of_nat (stored_before_end c tr)"
    by (simp add: stored_before_end_def)
  {
    assume "stored_before_end c tr < 2 ^ 63"
    then show "sint (uploadCount (heap (fst (run_pc env tr st)) p)) =
        int (stored_before_end c tr)"
      unfolding e by (rule sint_of_nat_small)
  }
  {
    assume "\<forall>ev \<in> set tr. no_upload_of c ev"
    with h calls_run_pc [of st c p tr env]
    show "stored_calls_pc env c tr st = stored_before_end c tr"
      by (simp add: stored_before_end_def)
  }
  assume k: "\<forall>ev \<in> set tr. keeps_session c ev"
  then have t: "takeWhile (keeps_session c) tr = tr"
    by (simp add: takeWhile_eq_all_conv)
  show "stored_before_end c tr = length (filter (stored c) tr)"
    unfolding stored_before_end_def t by (rule refl)
  from h k upload_run_pc [of st c p tr env]
  show "uploading_pc (fst (run_pc env tr st)) c p" by simp
next
  assume h: "store_inv sw \<and> uploading_pw sw c q \<and> uploadCount (heap sw q) = 0"
  from h count_any_run_pw [of sw c q env tr]
  show e: "uploadCount (heap (fst (run_pw env tr sw)) q) = of_nat (stored_before_end c tr)"
    by (simp add: stored_before_end_def)
  {
    assume "stored_before_end c tr < 2 ^ 63"
    then show "sint (uploadCount (heap (fst (run_pw env tr sw)) q)) =
        int (stored_before_end c tr)"
      unfolding e by (rule sint_of_nat_small)
  }
  {
    assume "\<forall>ev \<in> set tr. no_upload_of c ev"
    with h calls_run_pw [of sw c q tr env]
    show "stored_calls_pw env c tr sw = stored_before_end c tr"
      by (simp add: stored_before_end_def)
  }
  assume k: "\<forall>ev \<in> set tr. keeps_session c ev"
  then have t: "takeWhile (keeps_session c) tr = tr"
    by (simp add: takeWhile_eq_all_conv)
  show "stored_before_end c tr = length (filter (stored c) tr)"
    unfolding stored_before_end_def t by (rule refl)
  from h k upload_run_pw [of sw c q tr env]
  show "uploading_pw (fst (run_pw env tr sw)) c q" by simp
next
  assume "is_document u \<and> \<not> stored_jar u"
  then show "fst (step_pc env (c, u) st) = st"
    by (cases u) (simp_all add: failed_document_pc del: stored_jar.simps step_pc.simps)
next
  assume "is_document u \<and> \<not> stored_jar u"
  then show "fst (step_pw env (c, u) sw) = sw"
    by (cases u) (simp_all add: failed_document_pw del: stored_jar.simps step_pw.simps)
qed

text \<open>
  The theorem at the concrete runs: the trace with \<^verbatim>\<open>/done\<close> and late documents (two stored
  documents counted, two storage calls succeeded), the trace with the second \<^verbatim>\<open>/upload\<close>
  (one counted on the old session), and the trace that keeps the session.
\<close>

theorem C1_upload_count_witness:
  "sint (uploadCount (heap (fst (run_pc ''secret'' done_trace demo_pc)) 0)) = 2 \<and>
   stored_calls_pc ''secret'' 7 done_trace demo_pc = 2 \<and>
   uploadCount (heap (fst (run_pc ''secret'' restart_pc demo_pc)) 0) = 1 \<and>
   uploading_pc (fst (run_pc ''secret'' demo_trace demo_pc)) 7 0 \<and>
   sint (uploadCount (heap (fst (run_pw ''secret'' done_trace demo_pw)) 0)) = 2 \<and>
   stored_calls_pw ''secret'' 7 done_trace demo_pw = 2 \<and>
   uploadCount (heap (fst (run_pw ''secret'' restart_pw demo_pw)) 0) = 1 \<and>
   uploading_pw (fst (run_pw ''secret'' demo_trace demo_pw)) 7 0 \<and>
   fst (step_pc ''secret'' (7, OnDocument ''readme.txt'' None None) demo_pc) = demo_pc \<and>
   fst (step_pw ''secret'' (7, OnDocument ''lost.jar'' (Some ''timeout'') None) demo_pw) =
     demo_pw"
proof -
  have a: "sint (uploadCount (heap (fst (run_pc ''secret'' done_trace demo_pc)) 0)) = 2"
    "stored_calls_pc ''secret'' 7 done_trace demo_pc = 2"
    "sint (uploadCount (heap (fst (run_pw ''secret'' done_trace demo_pw)) 0)) = 2"
    "stored_calls_pw ''secret'' 7 done_trace demo_pw = 2"
    using C1_upload_count [of demo_pc 7 0 "''secret''" done_trace demo_pw 0 CmdStart]
      demo_pc_ok demo_pw_ok done_trace_facts(1)
    by (simp_all add: done_trace_facts(2))
  have b: "uploadCount (heap (fst (run_pc ''secret'' restart_pc demo_pc)) 0) = 1"
    using C1_upload_count [of demo_pc 7 0 "''secret''" restart_pc demo_pw 0 CmdStart]
      demo_pc_ok by (simp add: done_trace_facts(4))
  have b': "uploadCount (heap (fst (run_pw ''secret'' restart_pw demo_pw)) 0) = 1"
    using C1_upload_count [of demo_pc 7 0 "''secret''" restart_pw demo_pw 0 CmdStart]
      demo_pw_ok by (simp add: done_trace_facts(5))
  have k: "uploading_pc (fst (run_pc ''secret'' demo_trace demo_pc)) 7 0"
    "uploading_pw (fst (run_pw ''secret'' demo_trace demo_pw)) 7 0"
    using C1_upload_count [of demo_pc 7 0 "''secret''" demo_trace demo_pw 0 CmdStart]
      demo_pc_ok demo_pw_ok demo_trace_keeps
    by simp_all
  have c: "fst (step_pc ''secret'' (7, OnDocument ''readme.txt'' None None) demo_pc) = demo_pc"
    using C1_upload_count [of demo_pc 7 0 "''secret''" demo_trace demo_pw 0
        "OnDocument ''readme.txt'' None None"]
    by (simp add: HasSuffix_def)
  have d: "fst (step_pw ''secret'' (7, OnDocument ''lost.jar'' (Some ''timeout'') None) demo_pw)
      = demo_pw"
    using C1_upload_count [of demo_pc 7 0 "''secret''" demo_trace demo_pw 0
        "OnDocument ''lost.jar'' (Some ''timeout'') None"]
    by simp
  from a b b' k c d show ?thesis by simp
qed

text \<open>
  C2. The claim is that \<open>uploadCount\<close> grows only on an event handled while the session is
  active and its authentication condition holds. The document handler makes these checks,
  then waits for the download and the upload, then runs \<^verbatim>\<open>session.uploadCount++\<close> without
  looking again (main.go 178, part_000 167). Here conversation 7, with its session \<open>0\<close>
  uploading, sends a document, and its \<^verbatim>\<open>/done\<close> is handled while the upload is under way:
  the session is out of the map and inactive with count 0, and when the upload returns the
  count of that inactive session goes to 1. In both variants.
\<close>

theorem C2_increment_after_done:
  "uploading_pc demo_pc 7 0 \<and>
   uploadSessions (fst (fst (sched_run_pc ''secret'' race_done (demo_pc, [])))) 7 = None \<and>
   isActive (heap (fst (fst (sched_run_pc ''secret'' race_done (demo_pc, [])))) 0) = False \<and>
   uploadCount (heap (fst (fst (sched_run_pc ''secret'' race_done (demo_pc, [])))) 0) = 0 \<and>
   uploadCount (heap (fst (fst (sched_run_pc ''secret'' (race_done @ [DocEnd 0 None None])
       (demo_pc, [])))) 0) = 1 \<and>
   isActive (heap (fst (fst (sched_run_pc ''secret'' (race_done @ [DocEnd 0 None None])
       (demo_pc, [])))) 0) = False \<and>
   uploading_pw demo_pw 7 0 \<and>
   uploadSessions (fst (fst (sched_run_pw ''secret'' race_done (demo_pw, [])))) 7 = None \<and>
   isActive (heap (fst (fst (sched_run_pw ''secret'' race_done (demo_pw, [])))) 0) = False \<and>
   uploadCount (heap (fst (fst (sched_run_pw ''secret'' race_done (demo_pw, [])))) 0) = 0 \<and>
   uploadCount (heap (fst (fst (sched_run_pw ''secret'' (race_done @ [DocEnd 0 None None])
       (demo_pw, [])))) 0) = 1 \<and>
   isActive (heap (fst (fst (sched_run_pw ''secret'' (race_done @ [DocEnd 0 None None])
       (demo_pw, [])))) 0) = False"
  by (simp add: demo_pc_ok demo_pw_ok)
    (simp add: race_done_def demo_pc_eq demo_pw_eq init_pc_def init_pw_def handler_defs
      document_check_pc_def document_check_pw_def HasSuffix_def Let_def)

text \<open>
  C3. For a session that is active and authenticated and a document named \<^verbatim>\<open>*.jar\<close>: when
  the download returns an error, or the download succeeds and the storage call returns an
  error, the state after the event is the state before it (so \<open>uploadCount\<close> is unchanged,
  the session is still in the map and still active), and the last effect is the error
  reply carrying the error's text. Sending the file again, with both calls succeeding,
  then leaves the session uploading with \<open>uploadCount\<close> one higher. In both variants.
\<close>

theorem C3_storage_failure:
  "(uploading_pc st c p \<and> HasSuffix fileName ''.jar'' \<longrightarrow>
      step_pc env (c, OnDocument fileName (Some err) uploadErr) st =
        (st, [Send c (UploadingFile fileName (uploadCount (heap st p))), Download,
              Send c (FileReaderFailed err)]) \<and>
      step_pc env (c, OnDocument fileName None (Some err)) st =
        (st, [Send c (UploadingFile fileName (uploadCount (heap st p))), Download,
              DriveUpload fileName, Send c (DriveUploadFailed err)]) \<and>
      uploading_pc (fst (step_pc env (c, OnDocument fileName None None) st)) c p \<and>
      uploadCount (heap (fst (step_pc env (c, OnDocument fileName None None) st)) p) =
        uploadCount (heap st p) + 1) \<and>
   (uploading_pw sw c q \<and> HasSuffix fileName ''.jar'' \<longrightarrow>
      step_pw env (c, OnDocument fileName (Some err) uploadErr) sw =
        (sw, [Send c (UploadingFile fileName (uploadCount (heap sw q))), Download,
              Send c (FileReaderFailed err)]) \<and>
      step_pw env (c, OnDocument fileName None (Some err)) sw =
        (sw, [Send c (UploadingFile fileName (uploadCount (heap sw q))), Download,
              DriveUpload fileName, Send c (DriveUploadFailed err)]) \<and>
      uploading_pw (fst (step_pw env (c, OnDocument fileName None None) sw)) c q \<and>
      uploadCount (heap (fst (step_pw env (c, OnDocument fileName None None) sw)) q) =
        uploadCount (heap sw q) + 1)"
  by (simp add: uploading_pc_def uploading_pw_def handle_document_pc_def handle_document_pw_def
      Let_def)

theorem C3_storage_failure_witness:
  "step_pc ''secret'' (7, OnDocument ''big.jar'' None (Some ''quota exceeded'')) demo_pc =
     (demo_pc, [Send 7 (UploadingFile ''big.jar'' 0), Download, DriveUpload ''big.jar'',
                Send 7 (DriveUploadFailed ''quota exceeded'')]) \<and>
   uploadCount (heap (fst (step_pc ''secret'' (7, OnDocument ''big.jar'' None None) demo_pc)) 0)
     = 1 \<and>
   step_pw ''secret'' (7, OnDocument ''big.jar'' (Some ''quota exceeded'') None) demo_pw =
     (demo_pw, [Send 7 (UploadingFile ''big.jar'' 0), Download,
                Send 7 (FileReaderFailed ''quota exceeded'')]) \<and>
   uploadCount (heap (fst (step_pw ''secret'' (7, OnDocument ''big.jar'' None None) demo_pw)) 0)
     = 1"
proof -
  have j: "HasSuffix ''big.jar'' ''.jar''" by (simp add: HasSuffix_def)
  show ?thesis
    using C3_storage_failure [of demo_pc 7 0 "''big.jar''" "''secret''" "''quota exceeded''"
        None demo_pw 0] j demo_pc_ok demo_pw_ok
    by simp
qed

text \<open>
  C4. For a session that awaits the password (in the map, active, authentication
  condition not yet true), a text different from the configured password deletes the
  conversation's map entry, sets the session object inactive and sends the rejection
  reply. A following \<^verbatim>\<open>/upload\<close> of that conversation allocates a new object at the next free
  address, with \<open>uploadCount = 0\<close>, and points the map at it; the password is asked again.
  In both variants.
\<close>

theorem C4_wrong_password:
  "(awaiting_pc st c p \<and> txt \<noteq> uploadPassword env \<longrightarrow>
      uploadSessions (fst (step_pc env (c, OnText txt) st)) c = None \<and>
      \<not> isActive (heap (fst (step_pc env (c, OnText txt) st)) p) \<and>
      snd (step_pc env (c, OnText txt) st) = [Send c PasswordIncorrect] \<and>
      step_pc env (c, CmdUpload now) (fst (step_pc env (c, OnText txt) st)) =
        (\<lparr>heap = (heap st)
             (p := (heap st p)\<lparr>isActive := False\<rparr>,
              next_addr st := \<lparr>chatID = c, isActive = True, uploadCount = 0,
                               startTime = now, authenticated = False\<rparr>),
          next_addr = Suc (next_addr st),
          uploadSessions = (uploadSessions st)(c \<mapsto> next_addr st)\<rparr>,
         [Send c PromptPassword])) \<and>
   (awaiting_pw sw c q \<and> txt \<noteq> uploadPassword env \<longrightarrow>
      uploadSessions (fst (step_pw env (c, OnText txt) sw)) c = None \<and>
      \<not> isActive (heap (fst (step_pw env (c, OnText txt) sw)) q) \<and>
      snd (step_pw env (c, OnText txt) sw) = [Send c PasswordIncorrect] \<and>
      step_pw env (c, CmdUpload now) (fst (step_pw env (c, OnText txt) sw)) =
        (\<lparr>heap = (heap sw)
             (q := (heap sw q)\<lparr>isActive := False\<rparr>,
              next_addr sw := \<lparr>chatID = c, isActive = True, uploadCount = 0,
                               startTime = now\<rparr>),
          next_addr = Suc (next_addr sw),
          uploadSessions = (uploadSessions sw)(c \<mapsto> next_addr sw),
          isFirstTimeSetup = True\<rparr>,
         [Send c PromptPassword]))"
  by (simp add: awaiting_pc_def awaiting_pw_def handle_text_pc_def handle_text_pw_def
      handle_upload_pc_def handle_upload_pw_def Let_def)

theorem C4_wrong_password_witness:
  "uploadSessions (fst (step_pc ''secret'' (7, OnText ''Secret'') await_pc)) 7 = None \<and>
   snd (step_pc ''secret'' (7, OnText ''Secret'') await_pc) = [Send 7 PasswordIncorrect] \<and>
   uploadCount (heap (fst (step_pc ''secret'' (7, CmdUpload 200)
       (fst (step_pc ''secret'' (7, OnText ''Secret'') await_pc)))) 1) = 0 \<and>
   uploadSessions (fst (step_pw ''secret'' (7, OnText ''Secret'') await_pw)) 7 = None \<and>
   snd (step_pw ''secret'' (7, OnText ''Secret'') await_pw) = [Send 7 PasswordIncorrect] \<and>
   uploadCount (heap (fst (step_pw ''secret'' (7, CmdUpload 200)
       (fst (step_pw ''secret'' (7, OnText ''Secret'') await_pw)))) 1) = 0"
proof -
  have n: "''Secret'' \<noteq> uploadPassword ''secret''" by (simp add: uploadPassword_def)
  have a: "next_addr await_pc = 1" "next_addr await_pw = 1"
    by (simp_all add: await_pc_eq await_pw_eq)
  show ?thesis
    using C4_wrong_password [of await_pc 7 0 "''Secret''" "''secret''" 200 await_pw 0]
      n await_pc_ok(2) await_pw_ok(2) a
    by simp
qed

text \<open>
  C5, as stated, fails. A session object leaves the map (\<open>leaves_store\<close>: some key
  reached it before the event, none does after) without going inactive when \<^verbatim>\<open>/upload\<close>
  arrives for a conversation that already has a session: the handler overwrites the map
  entry with a new pointer and never touches the old object. Here conversation 7, whose
  session \<open>0\<close> has stored two files, sends \<^verbatim>\<open>/upload\<close>: the map then holds the new object
  \<open>2\<close> for it, object \<open>0\<close> is still active, and no key points at it.
\<close>

theorem C5_replaced_counterexample:
  "uploadSessions busy_pc 7 = Some 0 \<and>
   uploadSessions (fst (step_pc ''secret'' (7, CmdUpload 400) busy_pc)) = [7 \<mapsto> 2, 8 \<mapsto> 1] \<and>
   isActive (heap (fst (step_pc ''secret'' (7, CmdUpload 400) busy_pc)) 0) \<and>
   leaves_store busy_pc (fst (step_pc ''secret'' (7, CmdUpload 400) busy_pc)) 0 \<and>
   \<not> goes_inactive busy_pc (fst (step_pc ''secret'' (7, CmdUpload 400) busy_pc)) 0 \<and>
   uploadSessions busy_pw 7 = Some 0 \<and>
   uploadSessions (fst (step_pw ''secret'' (7, CmdUpload 400) busy_pw)) = [7 \<mapsto> 2, 8 \<mapsto> 1] \<and>
   isActive (heap (fst (step_pw ''secret'' (7, CmdUpload 400) busy_pw)) 0) \<and>
   leaves_store busy_pw (fst (step_pw ''secret'' (7, CmdUpload 400) busy_pw)) 0 \<and>
   \<not> goes_inactive busy_pw (fst (step_pw ''secret'' (7, CmdUpload 400) busy_pw)) 0"
proof -
  have pc: "fst (step_pc ''secret'' (7, CmdUpload 400) busy_pc) =
      \<lparr>heap = (heap busy_pc)(2 := \<lparr>chatID = 7, isActive = True, uploadCount = 0,
                 startTime = 400, authenticated = False\<rparr>),
        next_addr = 3, uploadSessions = [7 \<mapsto> 2, 8 \<mapsto> 1]\<rparr>"
    by (simp add: handle_upload_pc_def busy_next busy_pc_map Let_def fun_upd_twist)
  have pw: "fst (step_pw ''secret'' (7, CmdUpload 400) busy_pw) =
      \<lparr>heap = (heap busy_pw)(2 := \<lparr>chatID = 7, isActive = True, uploadCount = 0,
                 startTime = 400\<rparr>),
        next_addr = 3, uploadSessions = [7 \<mapsto> 2, 8 \<mapsto> 1], isFirstTimeSetup = False\<rparr>"
    by (simp add: handle_upload_pw_def busy_next busy_pw_map busy_pw_session Let_def fun_upd_twist)
  show ?thesis
    unfolding pc pw
    by (simp add: leaves_store_def goes_inactive_def in_store_def busy_pc_map busy_pw_map
        busy_pc_session busy_pw_session)
qed

text \<open>
  C5, amended. For a session \<open>p\<close> that the map holds for conversation \<open>c\<close>, and one event:
  \<^item> \<open>p\<close> leaves the map exactly when it goes inactive or the event is an \<^verbatim>\<open>/upload\<close> of \<open>c\<close>
    (which replaces it and leaves it active);
  \<^item> \<open>p\<close> goes inactive exactly on an event of \<open>c\<close> that ends the session: \<^verbatim>\<open>/done\<close>,
    \<^verbatim>\<open>/cancel\<close>, or a text other than the password while the password is awaited;
  \<^item> the entry of \<open>c\<close> is deleted exactly when \<open>p\<close> goes inactive.
  And in every state that a run reaches from the program's start, every session in the map
  is active. In both variants.
\<close>

theorem C5_store_holds_active:
  "(store_inv st \<and> uploadSessions st c = Some p \<longrightarrow>
      (leaves_store st (fst (step_pc env ev st)) p \<longleftrightarrow>
         goes_inactive st (fst (step_pc env ev st)) p \<or> (fst ev = c \<and> is_upload (snd ev))) \<and>
      (goes_inactive st (fst (step_pc env ev st)) p \<longleftrightarrow>
         fst ev = c \<and> ends_session env (\<not> authenticated (heap st p)) (snd ev)) \<and>
      (uploadSessions (fst (step_pc env ev st)) c = None \<longleftrightarrow>
         goes_inactive st (fst (step_pc env ev st)) p)) \<and>
   (store_inv sw \<and> uploadSessions sw c = Some q \<longrightarrow>
      (leaves_store sw (fst (step_pw env ev sw)) q \<longleftrightarrow>
         goes_inactive sw (fst (step_pw env ev sw)) q \<or> (fst ev = c \<and> is_upload (snd ev))) \<and>
      (goes_inactive sw (fst (step_pw env ev sw)) q \<longleftrightarrow>
         fst ev = c \<and> ends_session env (isFirstTimeSetup sw) (snd ev)) \<and>
      (uploadSessions (fst (step_pw env ev sw)) c = None \<longleftrightarrow>
         goes_inactive sw (fst (step_pw env ev sw)) q)) \<and>
   (uploadSessions (fst (run_pc env evs init_pc)) c = Some p \<longrightarrow>
      isActive (heap (fst (run_pc env evs init_pc)) p)) \<and>
   (uploadSessions (fst (run_pw env evs (init_pw flagFile))) c = Some q \<longrightarrow>
      isActive (heap (fst (run_pw env evs (init_pw flagFile))) q))"
proof (intro conjI impI)
  assume h: "store_inv st \<and> uploadSessions st c = Some p"
  then have l: "(leaves_store st (fst (step_pc env ev st)) p \<longleftrightarrow>
            fst ev = c \<and>
            (ends_session env (\<not> authenticated (heap st p)) (snd ev) \<or> is_upload (snd ev))) \<and>
         (uploadSessions (fst (step_pc env ev st)) c = None \<longleftrightarrow>
            fst ev = c \<and> ends_session env (\<not> authenticated (heap st p)) (snd ev)) \<and>
         (goes_inactive st (fst (step_pc env ev st)) p \<longleftrightarrow>
            fst ev = c \<and> ends_session env (\<not> authenticated (heap st p)) (snd ev))"
    by (intro leaves_step_pc) simp_all
  from l show "leaves_store st (fst (step_pc env ev st)) p \<longleftrightarrow>
         goes_inactive st (fst (step_pc env ev st)) p \<or> (fst ev = c \<and> is_upload (snd ev))"
    by blast
  from l show "goes_inactive st (fst (step_pc env ev st)) p \<longleftrightarrow>
         fst ev = c \<and> ends_session env (\<not> authenticated (heap st p)) (snd ev)"
    by blast
  from l show "uploadSessions (fst (step_pc env ev st)) c = None \<longleftrightarrow>
         goes_inactive st (fst (step_pc env ev st)) p"
    by blast
next
  assume h: "store_inv sw \<and> uploadSessions sw c = Some q"
  then have l: "(leaves_store sw (fst (step_pw env ev sw)) q \<longleftrightarrow>
            fst ev = c \<and>
            (ends_session env (isFirstTimeSetup sw) (snd ev) \<or> is_upload (snd ev))) \<and>
         (uploadSessions (fst (step_pw env ev sw)) c = None \<longleftrightarrow>
            fst ev = c \<and> ends_session env (isFirstTimeSetup sw) (snd ev)) \<and>
         (goes_inactive sw (fst (step_pw env ev sw)) q \<longleftrightarrow>
            fst ev = c \<and> ends_session env (isFirstTimeSetup sw) (snd ev))"
    by (intro leaves_step_pw) simp_all
  from l show "leaves_store sw (fst (step_pw env ev sw)) q \<longleftrightarrow>
         goes_inactive sw (fst (step_pw env ev sw)) q \<or> (fst ev = c \<and> is_upload (snd ev))"
    by blast
  from l show "goes_inactive sw (fst (step_pw env ev sw)) q \<longleftrightarrow>
         fst ev = c \<and> ends_session env (isFirstTimeSetup sw) (snd ev)"
    by blast
  from l show "uploadSessions (fst (step_pw env ev sw)) c = None \<longleftrightarrow>
         goes_inactive sw (fst (step_pw env ev sw)) q"
    by blast
next
  assume "uploadSessions (fst (run_pc env evs init_pc)) c = Some p"
  with store_inv_run_pc [OF store_inv_init_pc, of env evs]
  show "isActive (heap (fst (run_pc env evs init_pc)) p)"
    using store_invD by blast
next
  assume "uploadSessions (fst (run_pw env evs (init_pw flagFile))) c = Some q"
  with store_inv_run_pw [OF store_inv_init_pw, of env evs flagFile]
  show "isActive (heap (fst (run_pw env evs (init_pw flagFile))) q)"
    using store_invD by blast
qed


theorem C5_store_holds_active_witness:
  "leaves_store busy_pc (fst (step_pc ''secret'' (7, CmdDone 900) busy_pc)) 0 \<and>
   goes_inactive busy_pc (fst (step_pc ''secret'' (7, CmdDone 900) busy_pc)) 0 \<and>
   uploadSessions (fst (step_pc ''secret'' (7, CmdDone 900) busy_pc)) 7 = None \<and>
   leaves_store busy_pw (fst (step_pw ''secret'' (7, CmdDone 900) busy_pw)) 0 \<and>
   goes_inactive busy_pw (fst (step_pw ''secret'' (7, CmdDone 900) busy_pw)) 0 \<and>
   uploadSessions (fst (step_pw ''secret'' (7, CmdDone 900) busy_pw)) 7 = None \<and>
   isActive (heap (fst (run_pc ''secret'' [(7, CmdUpload 100)] init_pc)) 0) \<and>
   isActive (heap (fst (run_pw ''secret'' [(7, CmdUpload 100)] (init_pw False))) 0)"
proof -
  have a: "store_inv busy_pc \<and> uploadSessions busy_pc 7 = Some 0"
    and b: "store_inv busy_pw \<and> uploadSessions busy_pw 7 = Some 0"
    using busy_pc_ok(1,2) busy_pw_ok(1,2) by (simp_all add: uploading_pc_def uploading_pw_def)
  have c: "uploadSessions (fst (run_pc ''secret'' [(7, CmdUpload 100)] init_pc)) 7 = Some 0"
    and d: "uploadSessions (fst (run_pw ''secret'' [(7, CmdUpload 100)] (init_pw False))) 7 = Some 0"
    using await_pc_ok(2) await_pw_ok(2)
    unfolding await_pc_def await_pw_def awaiting_pc_def awaiting_pw_def by blast+
  note t = C5_store_holds_active [where st = busy_pc and c = 7 and p = 0 and env = "''secret''"
      and ev = "(7, CmdDone 900)" and sw = busy_pw and q = 0 and evs = "[(7, CmdUpload 100)]"
      and flagFile = False]
  from t a b c d show ?thesis
    by (simp del: step_pc.simps step_pw.simps run_pc.simps run_pw.simps
        fst_run_pc_Cons fst_run_pw_Cons)
qed

text \<open>
  C6. For a session that awaits the password, a text equal to the configured password
  (equality of strings) makes the authentication condition true: part\_000 sets the
  session's \<open>authenticated\<close>, main.go clears \<open>isFirstTimeSetup\<close> (and creates the flag file);
  the session is then uploading and the success reply is sent. After that, and after any
  further events \<open>evs\<close>, an \<^verbatim>\<open>/upload\<close> of any conversation \<open>c'\<close> creates a session that must
  give the password again in part\_000 (reply: prompt, state: awaiting), and in main.go a
  session that is uploading at once (reply: session started).
\<close>

theorem C6_correct_password:
  "(awaiting_pc st c p \<and> txt = uploadPassword env \<longrightarrow>
      step_pc env (c, OnText txt) st =
        (st\<lparr>heap := (heap st)(p := (heap st p)\<lparr>authenticated := True\<rparr>)\<rparr>,
         [Send c PasswordAccepted]) \<and>
      uploading_pc (fst (step_pc env (c, OnText txt) st)) c p \<and>
      snd (step_pc env (c', CmdUpload now) (fst (run_pc env ((c, OnText txt) # evs) st))) =
        [Send c' PromptPassword] \<and>
      awaiting_pc
        (fst (step_pc env (c', CmdUpload now) (fst (run_pc env ((c, OnText txt) # evs) st))))
        c' (next_addr (fst (run_pc env ((c, OnText txt) # evs) st)))) \<and>
   (awaiting_pw sw c q \<and> txt = uploadPassword env \<longrightarrow>
      step_pw env (c, OnText txt) sw =
        (sw\<lparr>isFirstTimeSetup := False\<rparr>, [CreateFlagFile, Send c PasswordAccepted]) \<and>
      uploading_pw (fst (step_pw env (c, OnText txt) sw)) c q \<and>
      snd (step_pw env (c', CmdUpload now) (fst (run_pw env ((c, OnText txt) # evs) sw))) =
        [Send c' SessionStarted] \<and>
      uploading_pw
        (fst (step_pw env (c', CmdUpload now) (fst (run_pw env ((c, OnText txt) # evs) sw))))
        c' (next_addr (fst (run_pw env ((c, OnText txt) # evs) sw))))"
proof (intro conjI impI)
  assume h: "awaiting_pc st c p \<and> txt = uploadPassword env"
  then show "step_pc env (c, OnText txt) st =
        (st\<lparr>heap := (heap st)(p := (heap st p)\<lparr>authenticated := True\<rparr>)\<rparr>,
         [Send c PasswordAccepted])"
    by (simp add: awaiting_pc_def handle_text_pc_def)
  then show "uploading_pc (fst (step_pc env (c, OnText txt) st)) c p"
    using h by (simp add: awaiting_pc_def uploading_pc_def del: step_pc.simps)
  let ?s = "fst (run_pc env ((c, OnText txt) # evs) st)"
  obtain st2 out2 where u: "step_pc env (c', CmdUpload now) ?s = (st2, out2)" by fastforce
  from upload_after_pc [OF u]
  show "snd (step_pc env (c', CmdUpload now) ?s) = [Send c' PromptPassword]"
    and "awaiting_pc (fst (step_pc env (c', CmdUpload now) ?s)) c' (next_addr ?s)"
    unfolding u by simp_all
next
  assume h: "awaiting_pw sw c q \<and> txt = uploadPassword env"
  then show e: "step_pw env (c, OnText txt) sw =
        (sw\<lparr>isFirstTimeSetup := False\<rparr>, [CreateFlagFile, Send c PasswordAccepted])"
    by (simp add: awaiting_pw_def handle_text_pw_def)
  then show "uploading_pw (fst (step_pw env (c, OnText txt) sw)) c q"
    using h by (simp add: awaiting_pw_def uploading_pw_def del: step_pw.simps)
  let ?s = "fst (run_pw env ((c, OnText txt) # evs) sw)"
  have "\<not> isFirstTimeSetup (fst (step_pw env (c, OnText txt) sw))"
    unfolding e by simp
  then have f: "\<not> isFirstTimeSetup ?s"
    by (simp add: flag_run_pw del: step_pw.simps run_pw.simps(2))
  obtain sw2 out2 where u: "step_pw env (c', CmdUpload now) ?s = (sw2, out2)" by fastforce
  from upload_after_pw [OF f u]
  show "snd (step_pw env (c', CmdUpload now) ?s) = [Send c' SessionStarted]"
    and "uploading_pw (fst (step_pw env (c', CmdUpload now) ?s)) c' (next_addr ?s)"
    unfolding u by simp_all
qed

theorem C6_correct_password_witness:
  "uploading_pc (fst (step_pc ''secret'' (7, OnText ''secret'') await_pc)) 7 0 \<and>
   snd (step_pc ''secret'' (8, CmdUpload 300)
         (fst (run_pc ''secret'' [(7, OnText ''secret''), (7, CmdCancel)] await_pc))) =
     [Send 8 PromptPassword] \<and>
   uploading_pw (fst (step_pw ''secret'' (7, OnText ''secret'') await_pw)) 7 0 \<and>
   snd (step_pw ''secret'' (8, CmdUpload 300)
         (fst (run_pw ''secret'' [(7, OnText ''secret''), (7, CmdCancel)] await_pw))) =
     [Send 8 SessionStarted]"
proof -
  have e: "''secret'' = uploadPassword ''secret''" by (simp add: uploadPassword_def)
  have a: "awaiting_pc await_pc 7 0 \<and> ''secret'' = uploadPassword ''secret''"
    and b: "awaiting_pw await_pw 7 0 \<and> ''secret'' = uploadPassword ''secret''"
    using e await_pc_ok(2) await_pw_ok(2) by simp_all
  note t = C6_correct_password [of await_pc 7 0 "''secret''" "''secret''" 8 300
      "[(7, CmdCancel)]" await_pw 0]
  note pc = conjunct1 [OF t, THEN mp, OF a]
  note pw = conjunct2 [OF t, THEN mp, OF b]
  from pc pw show ?thesis by (elim conjE) (intro conjI; assumption)
qed

text \<open>
  C7. For a session that is active and authenticated, a document whose name does not end
  in \<^verbatim>\<open>.jar\<close> leaves the whole state as it was (the session's \<open>isActive\<close>, \<open>uploadCount\<close>
  and \<open>startTime\<close>, its map entry, and everything else), and the only effect is the reply
  \<^verbatim>\<open>Please send only .jar files.\<close>: neither the download nor the storage call is made. In
  both variants, whatever the results those calls would have had.
\<close>

theorem C7_wrong_file_type:
  "(uploading_pc st c p \<and> \<not> HasSuffix fileName ''.jar'' \<longrightarrow>
      step_pc env (c, OnDocument fileName fileErr uploadErr) st = (st, [Send c OnlyJarFiles])) \<and>
   (uploading_pw sw c q \<and> \<not> HasSuffix fileName ''.jar'' \<longrightarrow>
      step_pw env (c, OnDocument fileName fileErr uploadErr) sw = (sw, [Send c OnlyJarFiles]))"
  by (simp add: uploading_pc_def uploading_pw_def handle_document_pc_def handle_document_pw_def)

theorem C7_wrong_file_type_witness:
  "step_pc ''secret'' (7, OnDocument ''readme.txt'' None None) demo_pc =
     (demo_pc, [Send 7 OnlyJarFiles]) \<and>
   step_pw ''secret'' (7, OnDocument ''notes.jar.txt'' None None) demo_pw =
     (demo_pw, [Send 7 OnlyJarFiles])"
  using C7_wrong_file_type [of demo_pc 7 0 "''readme.txt''" "''secret''" None None demo_pw 0]
    C7_wrong_file_type [of demo_pc 7 0 "''notes.jar.txt''" "''secret''" None None demo_pw 0]
    demo_pc_ok(2) demo_pw_ok(2)
  by (simp add: HasSuffix_def)

text \<open>
  C8. A text message for a conversation that has no session, or whose session is inactive,
  or whose authentication condition already holds (the session's \<open>authenticated\<close> in
  part\_000, the cleared flag in main.go), is ignored: the state is unchanged and nothing
  is sent.
\<close>

theorem C8_stray_text_ignored:
  "((uploadSessions st c = None \<or>
     (\<exists>p. uploadSessions st c = Some p \<and> (\<not> isActive (heap st p) \<or> authenticated (heap st p))))
    \<longrightarrow> step_pc env (c, OnText txt) st = (st, [])) \<and>
   ((uploadSessions sw c = None \<or>
     (\<exists>q. uploadSessions sw c = Some q \<and> (\<not> isActive (heap sw q) \<or> \<not> isFirstTimeSetup sw)))
    \<longrightarrow> step_pw env (c, OnText txt) sw = (sw, []))"
  by (auto simp: handle_text_pc_def handle_text_pw_def)

theorem C8_stray_text_ignored_witness:
  "step_pc ''secret'' (7, OnText ''hello'') demo_pc = (demo_pc, []) \<and>
   step_pw ''secret'' (7, OnText ''wrong'') demo_pw = (demo_pw, []) \<and>
   step_pc ''secret'' (9, OnText ''secret'') demo_pc = (demo_pc, []) \<and>
   step_pw ''secret'' (9, OnText ''secret'') demo_pw = (demo_pw, [])"
proof -
  have a: "\<exists>p. uploadSessions demo_pc 7 = Some p \<and>
      (\<not> isActive (heap demo_pc p) \<or> authenticated (heap demo_pc p))"
    using demo_pc_ok(2) by (auto simp: uploading_pc_def)
  have b: "\<exists>q. uploadSessions demo_pw 7 = Some q \<and>
      (\<not> isActive (heap demo_pw q) \<or> \<not> isFirstTimeSetup demo_pw)"
    using demo_pw_ok(2) by (auto simp: uploading_pw_def)
  have c: "uploadSessions demo_pc 9 = None" by (simp add: demo_pc_eq)
  have d: "uploadSessions demo_pw 9 = None" by (simp add: demo_pw_eq)
  show ?thesis
    using C8_stray_text_ignored [of demo_pc 7 "''secret''" "''hello''" demo_pw]
      C8_stray_text_ignored [of demo_pc 7 "''secret''" "''wrong''" demo_pw]
      C8_stray_text_ignored [of demo_pc 9 "''secret''" "''secret''" demo_pw]
      a b c d
    by simp
qed

text \<open>
  C9. \<^verbatim>\<open>/upload\<close> looks at no session: whatever the conversation had, it allocates a new
  session object (active, \<open>uploadCount = 0\<close>, not authenticated in part\_000) at the next
  free address and points the conversation's map entry at it; nothing else of the state
  changes, and the only effect is one reply (the password prompt; in main.go the
  session-started text once the flag is cleared). When the conversation had a session \<open>p\<close>
  in the map, that object is left as it was (still active, its count kept) and no key of
  the map reaches it any more: it was never set inactive, and no completed or cancelled
  reply with its count is sent.
\<close>

theorem C9_upload_replaces:
  "step_pc env (c, CmdUpload now) st =
     (\<lparr>heap = (heap st)(next_addr st := \<lparr>chatID = c, isActive = True, uploadCount = 0,
                startTime = now, authenticated = False\<rparr>),
       next_addr = Suc (next_addr st),
       uploadSessions = (uploadSessions st)(c \<mapsto> next_addr st)\<rparr>,
      [Send c PromptPassword]) \<and>
   step_pw env (c, CmdUpload now) sw =
     (\<lparr>heap = (heap sw)(next_addr sw := \<lparr>chatID = c, isActive = True, uploadCount = 0,
                startTime = now\<rparr>),
       next_addr = Suc (next_addr sw),
       uploadSessions = (uploadSessions sw)(c \<mapsto> next_addr sw),
       isFirstTimeSetup = isFirstTimeSetup sw\<rparr>,
      [Send c (if isFirstTimeSetup sw then PromptPassword else SessionStarted)]) \<and>
   (store_inv st \<and> uploadSessions st c = Some p \<longrightarrow>
      heap (fst (step_pc env (c, CmdUpload now) st)) p = heap st p \<and>
      (\<forall>c'. uploadSessions (fst (step_pc env (c, CmdUpload now) st)) c' \<noteq> Some p)) \<and>
   (store_inv sw \<and> uploadSessions sw c = Some q \<longrightarrow>
      heap (fst (step_pw env (c, CmdUpload now) sw)) q = heap sw q \<and>
      (\<forall>c'. uploadSessions (fst (step_pw env (c, CmdUpload now) sw)) c' \<noteq> Some q))"
proof (intro conjI impI allI)
  show "step_pc env (c, CmdUpload now) st =
     (\<lparr>heap = (heap st)(next_addr st := \<lparr>chatID = c, isActive = True, uploadCount = 0,
                startTime = now, authenticated = False\<rparr>),
       next_addr = Suc (next_addr st),
       uploadSessions = (uploadSessions st)(c \<mapsto> next_addr st)\<rparr>,
      [Send c PromptPassword])"
    by (simp add: handle_upload_pc_def Let_def)
  show "step_pw env (c, CmdUpload now) sw =
     (\<lparr>heap = (heap sw)(next_addr sw := \<lparr>chatID = c, isActive = True, uploadCount = 0,
                startTime = now\<rparr>),
       next_addr = Suc (next_addr sw),
       uploadSessions = (uploadSessions sw)(c \<mapsto> next_addr sw),
       isFirstTimeSetup = isFirstTimeSetup sw\<rparr>,
      [Send c (if isFirstTimeSetup sw then PromptPassword else SessionStarted)])"
    by (simp add: handle_upload_pw_def Let_def)
next
  assume h: "store_inv st \<and> uploadSessions st c = Some p"
  then have lt: "p < next_addr st" using store_invD by blast
  then show "heap (fst (step_pc env (c, CmdUpload now) st)) p = heap st p"
    by (simp add: handle_upload_pc_def Let_def)
  fix c'
  show "uploadSessions (fst (step_pc env (c, CmdUpload now) st)) c' \<noteq> Some p"
  proof (cases "c' = c")
    case True
    with lt show ?thesis by (simp add: handle_upload_pc_def Let_def)
  next
    case False
    have "uploadSessions st c' \<noteq> Some p"
    proof
      assume "uploadSessions st c' = Some p"
      with h have "chatID (heap st p) = c'" "chatID (heap st p) = c"
        using store_invD by blast+
      with False show False by simp
    qed
    with False show ?thesis by (simp add: handle_upload_pc_def Let_def)
  qed
next
  assume h: "store_inv sw \<and> uploadSessions sw c = Some q"
  then have lt: "q < next_addr sw" using store_invD by blast
  then show "heap (fst (step_pw env (c, CmdUpload now) sw)) q = heap sw q"
    by (simp add: handle_upload_pw_def Let_def)
  fix c'
  show "uploadSessions (fst (step_pw env (c, CmdUpload now) sw)) c' \<noteq> Some q"
  proof (cases "c' = c")
    case True
    with lt show ?thesis by (simp add: handle_upload_pw_def Let_def)
  next
    case False
    have "uploadSessions sw c' \<noteq> Some q"
    proof
      assume "uploadSessions sw c' = Some q"
      with h have "chatID (heap sw q) = c'" "chatID (heap sw q) = c"
        using store_invD by blast+
      with False show False by simp
    qed
    with False show ?thesis by (simp add: handle_upload_pw_def Let_def)
  qed
qed

theorem C9_upload_replaces_witness:
  "uploadCount (heap busy_pc 0) = 2 \<and>
   snd (step_pc ''secret'' (7, CmdUpload 400) busy_pc) = [Send 7 PromptPassword] \<and>
   uploadSessions (fst (step_pc ''secret'' (7, CmdUpload 400) busy_pc)) 7 = Some 2 \<and>
   uploadCount (heap (fst (step_pc ''secret'' (7, CmdUpload 400) busy_pc)) 2) = 0 \<and>
   uploadCount (heap (fst (step_pc ''secret'' (7, CmdUpload 400) busy_pc)) 0) = 2 \<and>
   uploadCount (heap busy_pw 0) = 2 \<and>
   snd (step_pw ''secret'' (7, CmdUpload 400) busy_pw) = [Send 7 SessionStarted] \<and>
   uploadSessions (fst (step_pw ''secret'' (7, CmdUpload 400) busy_pw)) 7 = Some 2 \<and>
   uploadCount (heap (fst (step_pw ''secret'' (7, CmdUpload 400) busy_pw)) 2) = 0 \<and>
   uploadCount (heap (fst (step_pw ''secret'' (7, CmdUpload 400) busy_pw)) 0) = 2"
proof -
  have a: "uploadSessions busy_pc 7 = Some 0" "uploadSessions busy_pw 7 = Some 0"
    using busy_pc_ok(2) busy_pw_ok(2) by (simp_all add: uploading_pc_def uploading_pw_def)
  have f: "\<not> isFirstTimeSetup busy_pw"
    using busy_pw_ok(2) by (simp add: uploading_pw_def)
  note t = C9_upload_replaces [of "''secret''" 7 400 busy_pc busy_pw 0 0]
  have pc: "heap (fst (step_pc ''secret'' (7, CmdUpload 400) busy_pc)) 0 = heap busy_pc 0"
    using t busy_pc_ok(1) a(1) by blast
  have pw: "heap (fst (step_pw ''secret'' (7, CmdUpload 400) busy_pw)) 0 = heap busy_pw 0"
    using t busy_pw_ok(1) a(2) by blast
  have e1: "step_pc ''secret'' (7, CmdUpload 400) busy_pc =
     (\<lparr>heap = (heap busy_pc)(2 := \<lparr>chatID = 7, isActive = True, uploadCount = 0,
                startTime = 400, authenticated = False\<rparr>),
       next_addr = 3, uploadSessions = (uploadSessions busy_pc)(7 \<mapsto> 2)\<rparr>,
      [Send 7 PromptPassword])"
    using t busy_next(1) by (simp del: step_pc.simps)
  have e2: "step_pw ''secret'' (7, CmdUpload 400) busy_pw =
     (\<lparr>heap = (heap busy_pw)(2 := \<lparr>chatID = 7, isActive = True, uploadCount = 0,
                startTime = 400\<rparr>),
       next_addr = 3, uploadSessions = (uploadSessions busy_pw)(7 \<mapsto> 2),
       isFirstTimeSetup = False\<rparr>,
      [Send 7 SessionStarted])"
    using t busy_next(2) f by (simp del: step_pw.simps)
  show ?thesis
    unfolding pc pw unfolding e1 e2 using busy_pc_ok(3) busy_pw_ok(3) by simp
qed

text \<open>
  C10. Authentication is never taken back. In part\_000, a session object that exists and
  has \<open>authenticated\<close> set keeps it set through every sequence of events, also when the
  session is cancelled, finished or replaced. In main.go, once \<open>isFirstTimeSetup\<close> is
  false it stays false through every sequence of events of the process run. Wrong
  passwords and \<^verbatim>\<open>/cancel\<close> are events like the others.
\<close>

theorem C10_auth_monotone:
  "(p < next_addr st \<and> authenticated (heap st p) \<longrightarrow>
      authenticated (heap (fst (run_pc env evs st)) p)) \<and>
   (\<not> isFirstTimeSetup sw \<longrightarrow> \<not> isFirstTimeSetup (fst (run_pw env evs sw)))"
  using auth_run_pc [of p st env evs] flag_run_pw [of sw env evs] by blast

theorem C10_auth_monotone_witness:
  "authenticated (heap (fst (run_pc ''secret'' after_auth demo_pc)) 0) \<and>
   \<not> isActive (heap (fst (run_pc ''secret'' after_auth demo_pc)) 0) \<and>
   \<not> isFirstTimeSetup (fst (run_pw ''secret'' after_auth demo_pw)) \<and>
   uploadSessions (fst (run_pw ''secret'' after_auth demo_pw)) 8 = None"
proof -
  have a: "0 < next_addr demo_pc \<and> authenticated (heap demo_pc 0)"
    by (simp add: demo_pc_eq)
  have b: "\<not> isFirstTimeSetup demo_pw"
    by (simp add: demo_pw_eq)
  note t = C10_auth_monotone [of 0 demo_pc "''secret''" after_auth demo_pw]
  from t a have 1: "authenticated (heap (fst (run_pc ''secret'' after_auth demo_pc)) 0)"
    by blast
  from t b have 2: "\<not> isFirstTimeSetup (fst (run_pw ''secret'' after_auth demo_pw))"
    by blast
  have 3: "\<not> isActive (heap (fst (run_pc ''secret'' after_auth demo_pc)) 0)"
    by (simp add: after_auth_def demo_pc_eq handler_defs HasSuffix_def init_pc_def Let_def
        uploadPassword_def)
  have 4: "uploadSessions (fst (run_pw ''secret'' after_auth demo_pw)) 8 = None"
    by (simp add: after_auth_def demo_pw_eq handler_defs HasSuffix_def init_pw_def Let_def
        uploadPassword_def)
  from 1 2 3 4 show ?thesis by blast
qed

end
